theory Spec2Isabelle
  imports Main
begin

section \<open>Python values used by \<open>scripts/contrib_word_art.py\<close>\<close>

text \<open>
  The exceptions the script can meet. \<open>OverflowError\<close> is what \<open>datetime\<close> raises when
  date arithmetic leaves the range \<open>date.min .. date.max\<close>; \<open>IndexError\<close> is a list or
  string subscript out of range; \<open>CalledProcessError\<close> is \<open>subprocess.check_call\<close> on a
  non-zero exit status; \<open>OSError\<close> is a failing file operation.
\<close>

datatype py_error = IndexError | OverflowError | CalledProcessError | OSError

text \<open>Sequencing of fallible steps: the first exception ends the computation.\<close>

definition bind :: "py_error + 'a \<Rightarrow> ('a \<Rightarrow> py_error + 'b) \<Rightarrow> py_error + 'b" where
  "bind m f = (case m of Inl e \<Rightarrow> Inl e | Inr x \<Rightarrow> f x)"

subsection \<open>\<open>datetime.date\<close> and \<open>datetime.timedelta\<close>\<close>

text \<open>
  A \<open>date\<close> is represented by its proleptic Gregorian ordinal (\<open>date.toordinal()\<close>):
  0001-01-01 is day 1 and 9999-12-31 is day 3652059. A \<open>timedelta\<close> built from
  \<open>days=\<close> or \<open>weeks=\<close> is its number of days.
\<close>

type_synonym date = int

definition MINORD :: int where
  "MINORD = 1"

definition MAXORD :: int where
  "MAXORD = 3652059"

definition valid_date :: "date \<Rightarrow> bool" where
  "valid_date d = (MINORD \<le> d \<and> d \<le> MAXORD)"

definition weeks :: "int \<Rightarrow> int" where
  "weeks n = 7 * n"

text \<open>\<open>date.weekday()\<close>: Monday is 0 and Sunday is 6.\<close>

definition weekday :: "date \<Rightarrow> int" where
  "weekday d = (d + 6) mod 7"

text \<open>\<open>date + timedelta\<close> and \<open>date - timedelta\<close>: \<open>OverflowError\<close> outside the range.\<close>

definition date_add :: "date \<Rightarrow> int \<Rightarrow> py_error + date" where
  "date_add d n =
     (let ord = d + n in
      if MINORD \<le> ord \<and> ord \<le> MAXORD then Inr ord else Inl OverflowError)"

definition date_sub :: "date \<Rightarrow> int \<Rightarrow> py_error + date" where
  "date_sub d n = date_add d (- n)"

text \<open>\<open>(d - a).days\<close> for two dates.\<close>

definition days_between :: "date \<Rightarrow> date \<Rightarrow> int" where
  "days_between d a = d - a"

section \<open>The anchor of the displayed year\<close>

definition sunday_of_current_week :: "date \<Rightarrow> py_error + date" where
  "sunday_of_current_week today =
     (let days_since_sun = (weekday today + 1) mod 7 in
      date_sub today days_since_sun)"

definition leftmost_sunday :: "date \<Rightarrow> py_error + date" where
  "leftmost_sunday today =
     bind (sunday_of_current_week today) (\<lambda>s. date_sub s (weeks 51))"

section \<open>Lists, strings and dictionaries\<close>

text \<open>\<open>range(n)\<close>: the integers from 0 up to, not including, \<open>n\<close>; empty when \<open>n \<le> 0\<close>.\<close>

definition py_range :: "int \<Rightarrow> int list" where
  "py_range n = map int [0..<nat n]"

text \<open>
  Subscripts \<open>xs[i]\<close> and \<open>xs[i] = v\<close>: a negative index counts from the end, and an
  index outside \<open>-len(xs) .. len(xs) - 1\<close> raises \<open>IndexError\<close>.
\<close>

definition getitem :: "'a list \<Rightarrow> int \<Rightarrow> py_error + 'a" where
  "getitem xs i =
     (let n = int (length xs); j = (if i < 0 then i + n else i) in
      if 0 \<le> j \<and> j < n then Inr (xs ! nat j) else Inl IndexError)"

definition setitem :: "'a list \<Rightarrow> int \<Rightarrow> 'a \<Rightarrow> py_error + 'a list" where
  "setitem xs i v =
     (let n = int (length xs); j = (if i < 0 then i + n else i) in
      if 0 \<le> j \<and> j < n then Inr (xs[nat j := v]) else Inl IndexError)"

text \<open>
  \<open>str.upper()\<close> on ASCII text: the letters \<open>a\<close> to \<open>z\<close> (codes 97 to 122) move to
  \<open>A\<close> to \<open>Z\<close>, every other character stays. Words are ASCII strings here, with
  character codes below 128. Python's \<open>str\<close> holds Unicode code points, and
  \<open>str.upper()\<close> also changes letters beyond ASCII, some into several characters or
  into a letter of the table (U+0131 becomes \<open>I\<close>): such words are outside this model,
  and on the 8-bit characters from 128 on this function is not \<open>str.upper()\<close>.
\<close>

definition upper_char :: "char \<Rightarrow> char" where
  "upper_char ch =
     (if (97::nat) \<le> of_char ch \<and> of_char ch \<le> (122::nat)
      then char_of (of_char ch - (32::nat)) else ch)"

definition upper :: "string \<Rightarrow> string" where
  "upper s = map upper_char s"

section \<open>The glyph table\<close>

type_synonym glyph = "string list"

definition FONT_5x7 :: "char \<rightharpoonup> glyph" where
  "FONT_5x7 = map_of
     [(CHR ''N'',
        [''10001'',
         ''11001'',
         ''10101'',
         ''10011'',
         ''10001'',
         ''10001'',
         ''10001'']),
      (CHR ''E'',
        [''11111'',
         ''10000'',
         ''11110'',
         ''10000'',
         ''11111'',
         ''00000'',
         ''00000'']),
      (CHR ''R'',
        [''11110'',
         ''10001'',
         ''11110'',
         ''10100'',
         ''10010'',
         ''10001'',
         ''00000'']),
      (CHR ''D'',
        [''11110'',
         ''10001'',
         ''10001'',
         ''10001'',
         ''11110'',
         ''00000'',
         ''00000'']),
      (CHR ''L'',
        [''10000'',
         ''10000'',
         ''10000'',
         ''10000'',
         ''11111'',
         ''00000'',
         ''00000'']),
      (CHR ''I'',
        [''11111'',
         ''00100'',
         ''00100'',
         ''00100'',
         ''11111'',
         ''00000'',
         ''00000''])]"

section \<open>The glyph compositor\<close>

text \<open>A canvas is a list of rows, each a list of cells; a cell is lit when it is not 0.\<close>

type_synonym canvas = "int list list"

text \<open>\<open>[[0 for _ in range(cols)] for _ in range(rows)]\<close>\<close>

definition blank_canvas :: "int \<Rightarrow> int \<Rightarrow> canvas" where
  "blank_canvas rows cols = map (\<lambda>_. map (\<lambda>_. 0) (py_range cols)) (py_range rows)"

text \<open>
  The first loop of \<open>compose_word\<close>, over the characters of \<open>word.upper()\<close>: it collects the
  glyphs of the characters the table has and adds up the width.
\<close>

fun measure_word :: "string \<Rightarrow> int \<Rightarrow> glyph list \<Rightarrow> int \<Rightarrow> glyph list \<times> int" where
  "measure_word [] spacing letters width = (letters, width)"
| "measure_word (ch # rest) spacing letters width =
     (case FONT_5x7 ch of
        None \<Rightarrow> measure_word rest spacing letters width
      | Some g \<Rightarrow> measure_word rest spacing (letters @ [g]) (width + 5 + spacing))"

definition start_column :: "int \<Rightarrow> int \<Rightarrow> int" where
  "start_column cols width = max 0 ((cols - width) div 2)"

text \<open>
  The state of the stamping loops is the canvas together with the list of the targets
  \<open>(r, c + x)\<close> of the assignments \<open>canvas[r][c + x] = 1\<close> executed so far. The list is
  not in the script: it records where the script writes.
\<close>

type_synonym stamping = "canvas \<times> (int \<times> int) list"

text \<open>\<open>for x in range(5)\<close>, for one glyph at column \<open>c\<close> and one row \<open>r\<close>.\<close>

fun stamp_row :: "glyph \<Rightarrow> int \<Rightarrow> int \<Rightarrow> int \<Rightarrow> int list \<Rightarrow> stamping \<Rightarrow> py_error + stamping" where
  "stamp_row glyph cols c r [] st = Inr st"
| "stamp_row glyph cols c r (x # xs) st =
     bind (getitem glyph r) (\<lambda>line.
     bind (getitem line x) (\<lambda>px.
       if px = CHR ''1'' \<and> 0 \<le> c + x \<and> c + x < cols
       then
         bind (getitem (fst st) r) (\<lambda>row.
         bind (setitem row (c + x) 1) (\<lambda>row'.
         bind (setitem (fst st) r row') (\<lambda>canvas'.
           stamp_row glyph cols c r xs (canvas', snd st @ [(r, c + x)]))))
       else stamp_row glyph cols c r xs st))"

text \<open>\<open>for r in range(7)\<close>, for one glyph at column \<open>c\<close>.\<close>

fun stamp_glyph :: "glyph \<Rightarrow> int \<Rightarrow> int \<Rightarrow> int list \<Rightarrow> stamping \<Rightarrow> py_error + stamping" where
  "stamp_glyph glyph cols c [] st = Inr st"
| "stamp_glyph glyph cols c (r # rs) st =
     bind (stamp_row glyph cols c r (py_range 5) st) (\<lambda>st'.
       stamp_glyph glyph cols c rs st')"

text \<open>\<open>for glyph in letters\<close>, with \<open>c += 5 + spacing\<close> after each glyph.\<close>

fun stamp_letters :: "glyph list \<Rightarrow> int \<Rightarrow> int \<Rightarrow> int \<Rightarrow> stamping \<Rightarrow> py_error + stamping" where
  "stamp_letters [] cols spacing c st = Inr st"
| "stamp_letters (glyph # letters) cols spacing c st =
     bind (stamp_glyph glyph cols c (py_range 7) st) (\<lambda>st'.
       stamp_letters letters cols spacing (c + (5 + spacing)) st')"

definition compose_word_writes :: "string \<Rightarrow> int \<Rightarrow> int \<Rightarrow> py_error + stamping" where
  "compose_word_writes word total_columns spacing =
     (let rows = 7; cols = total_columns;
          canvas = blank_canvas rows cols;
          (letters, width) = measure_word (upper word) spacing [] 0;
          width = (if letters \<noteq> [] then width - spacing else width);
          start_col = start_column cols width
      in stamp_letters letters cols spacing start_col (canvas, []))"

text \<open>\<open>compose_word\<close> returns the canvas.\<close>

definition compose_word :: "string \<Rightarrow> int \<Rightarrow> int \<Rightarrow> py_error + canvas" where
  "compose_word word total_columns spacing =
     bind (compose_word_writes word total_columns spacing) (\<lambda>st. Inr (fst st))"

section \<open>The world outside the script\<close>

text \<open>
  What the script reads from its environment: the date \<open>dt.date.today()\<close> returns, the
  value of \<open>os.environ.get("GIT_AUTHOR_EMAIL")\<close>, whether a shell command exits with
  status 0 and whether the tracking file can be created and appended to. The last two
  may depend on what the run has done so far.
\<close>

datatype command =
    RevParse
  | GitAdd string
  | GitCommit date string string string bool
  | GitPush

datatype event =
    Print nat int
  | AppendLine string date string
  | Shell command

record world =
  clock :: date
  environ_email :: "string option"
  sh_ok :: "event list \<Rightarrow> command \<Rightarrow> bool"
  fs_ok :: "event list \<Rightarrow> string \<Rightarrow> bool"

section \<open>The schedule planner\<close>

text \<open>\<open>for row in range(7)\<close>, for one column.\<close>

fun plan_rows :: "canvas \<Rightarrow> date \<Rightarrow> int \<Rightarrow> int list \<Rightarrow> date list \<Rightarrow> py_error + date list" where
  "plan_rows canvas col_sun col [] dates = Inr dates"
| "plan_rows canvas col_sun col (row # rows) dates =
     bind (getitem canvas row) (\<lambda>line.
     bind (getitem line col) (\<lambda>cell.
       if cell \<noteq> 0
       then bind (date_add col_sun row) (\<lambda>d.
              plan_rows canvas col_sun col rows (dates @ [d]))
       else plan_rows canvas col_sun col rows dates))"

text \<open>\<open>for col in range(52)\<close>\<close>

fun plan_cols :: "canvas \<Rightarrow> date \<Rightarrow> int list \<Rightarrow> date list \<Rightarrow> py_error + date list" where
  "plan_cols canvas start [] dates = Inr dates"
| "plan_cols canvas start (col # cols) dates =
     bind (date_add start (weeks col)) (\<lambda>col_sun.
     bind (plan_rows canvas col_sun col (py_range 7) dates) (\<lambda>dates'.
       plan_cols canvas start cols dates'))"

definition plan_dates :: "world \<Rightarrow> canvas \<Rightarrow> py_error + date list" where
  "plan_dates w canvas =
     (let today = clock w in
      bind (leftmost_sunday today) (\<lambda>start.
        plan_cols canvas start (py_range 52) []))"

section \<open>Creating the commits\<close>

text \<open>
  A run leaves a trace of events: the report printed by \<open>main\<close>, the lines appended to
  the tracking file and the shell commands started. A \<open>git commit\<close> is recorded with its
  date, author name, author email, message and \<open>--allow-empty\<close> flag.

  \<open>run(cmd)\<close> is \<open>subprocess.check_call\<close>: the command is started, and a non-zero exit
  status raises \<open>CalledProcessError\<close>.
\<close>

definition run :: "world \<Rightarrow> command \<Rightarrow> event list \<Rightarrow> (py_error + unit) \<times> event list" where
  "run w cmd tr =
     (if sh_ok w tr cmd then Inr () else Inl CalledProcessError, tr @ [Shell cmd])"

definition make_commit_for_date ::
  "world \<Rightarrow> date \<Rightarrow> string \<Rightarrow> string \<Rightarrow> string \<Rightarrow> string \<Rightarrow> bool \<Rightarrow> event list
     \<Rightarrow> (py_error + unit) \<times> event list" where
  "make_commit_for_date w the_date author_name author_email message file_path allow_empty tr =
     (if \<not> fs_ok w tr file_path then (Inl OSError, tr)
      else
        let tr1 = tr @ [AppendLine file_path the_date message] in
        (case run w (GitAdd file_path) tr1 of
           (Inl e, tr2) \<Rightarrow> (Inl e, tr2)
         | (Inr _, tr2) \<Rightarrow>
             run w (GitCommit the_date author_name author_email message allow_empty) tr2))"

section \<open>The command line\<close>

text \<open>
  The parsed arguments, with the defaults of the parser filled in by \<open>argparse\<close>. A run
  of \<open>main\<close> is modelled from the statement after \<open>p.parse_args()\<close> on: a command
  line that \<open>argparse\<close> rejects, or one with \<open>--help\<close>, ends inside
  \<open>parse_args\<close> and has no parsed arguments.
\<close>

record args =
  arg_word :: string
  arg_intensity :: int
  arg_apply :: bool
  arg_push :: bool
  arg_name :: string
  arg_email :: "string option"
  arg_file :: string

text \<open>
  How a run of \<open>main\<close> ends: it returns, it raises \<open>SystemExit\<close> with a message, or an
  exception is not caught. The interpreter exits with status 0 in the first case and
  with status 1 in the other two.
\<close>

datatype ending = Returned | SystemExit string | Uncaught py_error

fun exit_code :: "ending \<Rightarrow> int" where
  "exit_code Returned = 0"
| "exit_code (SystemExit msg) = 1"
| "exit_code (Uncaught e) = 1"

text \<open>\<open>x or y\<close> for an optional string \<open>x\<close>: \<open>None\<close> and the empty string are false.\<close>

fun py_or :: "string option \<Rightarrow> string \<Rightarrow> string" where
  "py_or None y = y"
| "py_or (Some x) y = (if x = [] then y else x)"

text \<open>\<open>for k in range(args.intensity)\<close>, for one date.\<close>

fun commit_pixel ::
  "world \<Rightarrow> args \<Rightarrow> string \<Rightarrow> date \<Rightarrow> int list \<Rightarrow> event list \<Rightarrow> (py_error + unit) \<times> event list" where
  "commit_pixel w a author_email d [] tr = (Inr (), tr)"
| "commit_pixel w a author_email d (k # ks) tr =
     (case make_commit_for_date w d (arg_name a) author_email (arg_word a @ '' pixel'')
             (arg_file a) False tr of
        (Inl e, tr') \<Rightarrow> (Inl e, tr')
      | (Inr _, tr') \<Rightarrow> commit_pixel w a author_email d ks tr')"

text \<open>\<open>for d in dates\<close>\<close>

fun commit_dates ::
  "world \<Rightarrow> args \<Rightarrow> string \<Rightarrow> date list \<Rightarrow> event list \<Rightarrow> (py_error + unit) \<times> event list" where
  "commit_dates w a author_email [] tr = (Inr (), tr)"
| "commit_dates w a author_email (d # ds) tr =
     (case commit_pixel w a author_email d (py_range (arg_intensity a)) tr of
        (Inl e, tr') \<Rightarrow> (Inl e, tr')
      | (Inr _, tr') \<Rightarrow> commit_dates w a author_email ds tr')"

definition main :: "world \<Rightarrow> args \<Rightarrow> ending \<times> event list" where
  "main w a =
     (case bind (compose_word (arg_word a) 52 1) (\<lambda>canvas. plan_dates w canvas) of
        Inl e \<Rightarrow> (Uncaught e, [])
      | Inr dates \<Rightarrow>
          let tr = [Print (length dates) (int (length dates) * arg_intensity a)] in
          if \<not> arg_apply a then (Returned, tr)
          else
            let author_email = py_or (arg_email a) (py_or (environ_email w) []) in
            if author_email = []
            then (SystemExit ''--email is required (or set GIT_AUTHOR_EMAIL)'', tr)
            else
              (case run w RevParse tr of
                 (Inl e, tr1) \<Rightarrow> (Uncaught e, tr1)
               | (Inr _, tr1) \<Rightarrow>
                   (case commit_dates w a author_email dates tr1 of
                      (Inl e, tr2) \<Rightarrow> (Uncaught e, tr2)
                    | (Inr _, tr2) \<Rightarrow>
                        if arg_push a
                        then (case run w GitPush tr2 of
                                (Inl e, tr3) \<Rightarrow> (Uncaught e, tr3)
                              | (Inr _, tr3) \<Rightarrow> (Returned, tr3))
                        else (Returned, tr2))))"

section \<open>Notions the properties are stated with\<close>

text \<open>A canvas of the planner has 7 rows of 52 cells.\<close>

definition is_canvas :: "canvas \<Rightarrow> bool" where
  "is_canvas canvas = (length canvas = 7 \<and> (\<forall>line \<in> set canvas. length line = 52))"

text \<open>The cell of row \<open>row\<close> and column \<open>col\<close> is lit.\<close>

definition lit :: "canvas \<Rightarrow> int \<Rightarrow> int \<Rightarrow> bool" where
  "lit canvas row col = (canvas ! nat row ! nat col \<noteq> 0)"

text \<open>The number of lit cells, counted row by row.\<close>

definition lit_count :: "canvas \<Rightarrow> nat" where
  "lit_count canvas = length (filter (\<lambda>cell. cell \<noteq> 0) (concat canvas))"

text \<open>The lit cells as \<open>(column, row)\<close> pairs, column by column and top to bottom.\<close>

definition lit_cells :: "canvas \<Rightarrow> (int \<times> int) list" where
  "lit_cells canvas =
     concat (map (\<lambda>col. map (\<lambda>row. (col, row)) (filter (\<lambda>row. lit canvas row col) (py_range 7)))
               (py_range 52))"

text \<open>
  Column and row recovered from an emitted date: \<open>d = (date - anchor).days\<close>, then
  \<open>(d div 7, d mod 7)\<close>.
\<close>

definition cell_of_date :: "date \<Rightarrow> date \<Rightarrow> int \<times> int" where
  "cell_of_date anchor date = (let d = days_between date anchor in (d div 7, d mod 7))"

text \<open>
  The bitmap of a glyph placed at column \<open>start\<close> of a canvas of \<open>cols\<close> columns, every
  other cell unlit.
\<close>

definition glyph_at :: "glyph \<Rightarrow> int \<Rightarrow> int \<Rightarrow> canvas" where
  "glyph_at glyph start cols =
     map (\<lambda>r. map (\<lambda>j. if start \<le> j \<and> j < start + 5
                          \<and> glyph ! nat r ! nat (j - start) = CHR ''1''
                       then 1 else 0) (py_range cols))
       (py_range 7)"

text \<open>
  The date of a cell: the anchor plus \<open>col\<close> weeks plus \<open>row\<close> days. The pair is
  \<open>(column, row)\<close>.
\<close>

definition date_of_cell :: "date \<Rightarrow> int \<times> int \<Rightarrow> date" where
  "date_of_cell anchor cell = anchor + 7 * fst cell + snd cell"

text \<open>
  What the stamping loops write, as a function of the glyphs: the targets of one row of
  one glyph, of one glyph, and of all the letters, in the order of the loops; and the
  canvas obtained by setting a list of targets to 1.
\<close>

definition row_writes :: "glyph \<Rightarrow> int \<Rightarrow> int \<Rightarrow> int \<Rightarrow> int list \<Rightarrow> (int \<times> int) list" where
  "row_writes glyph cols c r xs =
     map (\<lambda>x. (r, c + x))
       (filter (\<lambda>x. glyph ! nat r ! nat x = CHR ''1'' \<and> 0 \<le> c + x \<and> c + x < cols) xs)"

definition glyph_writes :: "glyph \<Rightarrow> int \<Rightarrow> int \<Rightarrow> int list \<Rightarrow> (int \<times> int) list" where
  "glyph_writes glyph cols c rs = concat (map (\<lambda>r. row_writes glyph cols c r (py_range 5)) rs)"

fun letters_writes :: "glyph list \<Rightarrow> int \<Rightarrow> int \<Rightarrow> int \<Rightarrow> (int \<times> int) list" where
  "letters_writes [] cols spacing c = []"
| "letters_writes (glyph # letters) cols spacing c =
     glyph_writes glyph cols c (py_range 7) @ letters_writes letters cols spacing (c + (5 + spacing))"

definition paint :: "canvas \<Rightarrow> (int \<times> int) list \<Rightarrow> canvas" where
  "paint canvas targets =
     fold (\<lambda>target cv. cv[nat (fst target) := (cv ! nat (fst target))[nat (snd target) := 1]])
       targets canvas"

text \<open>
  The glyphs of the characters of a word that the table has, and the width the
  compositor measures for them.
\<close>

definition word_letters :: "string \<Rightarrow> glyph list" where
  "word_letters word = map (\<lambda>ch. the (FONT_5x7 ch)) (filter (\<lambda>ch. FONT_5x7 ch \<noteq> None) (upper word))"

definition word_width :: "string \<Rightarrow> int \<Rightarrow> int" where
  "word_width word spacing =
     (let n = int (length (word_letters word)) in if n = 0 then 0 else (5 + spacing) * n - spacing)"

text \<open>
  Well-formed glyphs (7 rows of 5 characters), well-formed grids of \<open>cols\<close> columns
  (7 rows of \<open>cols\<close> cells, each 0 or 1) and targets inside such a grid.
\<close>

definition glyph_ok :: "glyph \<Rightarrow> bool" where
  "glyph_ok glyph = (length glyph = 7 \<and> (\<forall>line \<in> set glyph. length line = 5))"

definition grid_ok :: "int \<Rightarrow> canvas \<Rightarrow> bool" where
  "grid_ok cols canvas =
     (length canvas = 7 \<and>
      (\<forall>line \<in> set canvas. length line = nat cols \<and> (\<forall>cell \<in> set line. cell = 0 \<or> cell = 1)))"

definition in_grid :: "int \<Rightarrow> int \<times> int \<Rightarrow> bool" where
  "in_grid cols target = (0 \<le> fst target \<and> fst target < 7 \<and> 0 \<le> snd target \<and> snd target < cols)"

text \<open>
  The author email is missing: \<open>--email\<close> is absent or empty, and so is
  \<open>GIT_AUTHOR_EMAIL\<close>.
\<close>

definition email_missing :: "world \<Rightarrow> args \<Rightarrow> bool" where
  "email_missing w a =
     ((arg_email a = None \<or> arg_email a = Some [])
      \<and> (environ_email w = None \<or> environ_email w = Some []))"

text \<open>
  An event that only reports: printing the plan. The other events change the tracking
  file or start a command.
\<close>

fun is_report :: "event \<Rightarrow> bool" where
  "is_report (Print n planned) = True"
| "is_report (AppendLine path d msg) = False"
| "is_report (Shell cmd) = False"

text \<open>
  Concrete inputs for the examples: a world where every command and file operation
  succeeds and no email is set in the environment, the arguments when the command line
  is empty, a canvas whose only lit cell is the last one (row 6, column 51), and the
  canvas expected for the word \<open>I\<close>.
\<close>

definition quiet_world :: "date \<Rightarrow> world" where
  "quiet_world today =
     \<lparr>clock = today, environ_email = None, sh_ok = (\<lambda>tr cmd. True), fs_ok = (\<lambda>tr path. True)\<rparr>"

definition default_args :: args where
  "default_args =
     \<lparr>arg_word = ''NERDLIN'', arg_intensity = 6, arg_apply = False, arg_push = False,
      arg_name = ''Nerdlin'', arg_email = None, arg_file = ''art/log.txt''\<rparr>"

definition corner_canvas :: canvas where
  "corner_canvas = replicate 6 (replicate 52 0) @ [replicate 51 0 @ [1]]"

definition canvas_I :: canvas where
  "canvas_I =
     (let bar = replicate 23 0 @ replicate 5 1 @ replicate 24 0;
          stem = replicate 25 0 @ [1] @ replicate 26 0;
          none = replicate 52 0
      in [bar, stem, stem, stem, bar, none, none])"

section \<open>Basic facts\<close>

lemma bind_Inr [simp]: "bind (Inr x) f = f x"
  by (simp add: bind_def)

lemma bind_Inl [simp]: "bind (Inl e) f = Inl e"
  by (simp add: bind_def)

lemma bind_eq_Inr: "bind m f = Inr y \<longleftrightarrow> (\<exists>x. m = Inr x \<and> f x = Inr y)"
  by (cases m) simp_all

lemma getitem_in_range: "0 \<le> i \<Longrightarrow> i < int (length xs) \<Longrightarrow> getitem xs i = Inr (xs ! nat i)"
  by (simp add: getitem_def Let_def)

lemma setitem_in_range:
  "0 \<le> i \<Longrightarrow> i < int (length xs) \<Longrightarrow> setitem xs i v = Inr (xs[nat i := v])"
  by (simp add: setitem_def Let_def)

lemma date_add_valid: "valid_date (d + n) \<Longrightarrow> date_add d n = Inr (d + n)"
  by (simp add: date_add_def valid_date_def Let_def)

lemma sorted_wrt_py_range: "sorted_wrt (<) (py_range n)"
  by (simp add: py_range_def sorted_wrt_map)

section \<open>Properties of the anchor\<close>

lemma sunday_of_current_week_value:
  "sunday_of_current_week today =
     (if MINORD \<le> today - today mod 7 \<and> today - today mod 7 \<le> MAXORD
      then Inr (today - today mod 7) else Inl OverflowError)"
proof -
  have "(weekday today + 1) mod 7 = today mod 7"
    unfolding weekday_def by presburger
  then show ?thesis
    by (simp add: sunday_of_current_week_def date_sub_def date_add_def Let_def)
qed

lemma leftmost_sunday_value:
  assumes "364 \<le> today" and "today \<le> MAXORD"
  shows "leftmost_sunday today = Inr (today - today mod 7 - 357)"
proof -
  define s where "s = today - today mod 7"
  have "358 \<le> s" and "s \<le> today"
    unfolding s_def using assms(1) by presburger+
  then have "sunday_of_current_week today = Inr s" and "date_sub s (weeks 51) = Inr (s - 357)"
    using assms(2) unfolding sunday_of_current_week_value s_def [symmetric]
    by (simp_all add: date_sub_def date_add_def weeks_def MINORD_def MAXORD_def Let_def)
  then show ?thesis
    by (simp add: leftmost_sunday_def bind_def s_def)
qed

lemma leftmost_sunday_Inr:
  assumes "leftmost_sunday today = Inr anchor"
  shows "anchor = today - today mod 7 - 357"
    and "sunday_of_current_week today = Inr (anchor + 357)"
    and "MINORD \<le> anchor" and "anchor + 362 \<le> MAXORD"
proof -
  define s where "s = today - today mod 7"
  have s7: "s mod 7 = 0"
    unfolding s_def by presburger
  from assms obtain s' where s': "sunday_of_current_week today = Inr s'"
    and a: "date_sub s' (weeks 51) = Inr anchor"
    by (auto simp: leftmost_sunday_def bind_eq_Inr)
  from s' have ss: "s' = s" and sr: "MINORD \<le> s" "s \<le> MAXORD"
    unfolding sunday_of_current_week_value s_def [symmetric]
    by (simp_all split: if_splits)
  from a have av: "anchor = s - 357" and ar: "MINORD \<le> s - 357"
    unfolding ss by (simp_all add: date_sub_def date_add_def weeks_def Let_def split: if_splits)
  show "anchor = today - today mod 7 - 357"
    using av by (simp add: s_def)
  show "sunday_of_current_week today = Inr (anchor + 357)"
    using s' ss av by simp
  show "MINORD \<le> anchor"
    using av ar by simp
  have "s \<le> 3652054"
    using s7 sr(2) unfolding MAXORD_def by presburger
  then show "anchor + 362 \<le> MAXORD"
    using av by (simp add: MAXORD_def)
qed

lemma leftmost_sunday_early:
  assumes "today < 364"
  shows "leftmost_sunday today = Inl OverflowError"
proof -
  define s where "s = today - today mod 7"
  have s: "s \<le> 357"
    unfolding s_def using assms by presburger
  show ?thesis
  proof (cases "MINORD \<le> s \<and> s \<le> MAXORD")
    case True
    then have "sunday_of_current_week today = Inr s"
      unfolding sunday_of_current_week_value s_def [symmetric] by simp
    moreover have "date_sub s (weeks 51) = Inl OverflowError"
      using s by (simp add: date_sub_def date_add_def weeks_def MINORD_def Let_def)
    ultimately show ?thesis
      by (simp add: leftmost_sunday_def)
  next
    case False
    then have "sunday_of_current_week today = Inl OverflowError"
      unfolding sunday_of_current_week_value s_def [symmetric] by simp
    then show ?thesis
      by (simp add: leftmost_sunday_def)
  qed
qed

lemma anchor_from_day_364:
  assumes "valid_date today" and "364 \<le> today"
  shows "\<exists>anchor s. leftmost_sunday today = Inr anchor
           \<and> sunday_of_current_week today = Inr s
           \<and> valid_date anchor \<and> weekday anchor = 6
           \<and> date_add anchor (weeks 51) = Inr s
           \<and> weekday s = 6 \<and> s \<le> today \<and> today < s + 7
           \<and> (weekday today = 6 \<longrightarrow> s = today)"
proof -
  let ?s = "today - today mod 7"
  let ?a = "?s - 357"
  have hi: "today \<le> MAXORD"
    using assms(1) by (simp add: valid_date_def)
  have m: "0 \<le> today mod 7" "today mod 7 < 7"
    by simp_all
  have lo: "358 \<le> ?s"
    using assms(2) by presburger
  have a: "leftmost_sunday today = Inr ?a"
    by (rule leftmost_sunday_value [OF assms(2) hi])
  have s: "sunday_of_current_week today = Inr ?s"
    using lo hi m by (simp add: sunday_of_current_week_value MINORD_def)
  have va: "valid_date ?a"
    using lo hi m by (simp add: valid_date_def MINORD_def)
  have wa: "weekday ?a = 6"
    unfolding weekday_def by presburger
  have ws: "weekday ?s = 6"
    unfolding weekday_def by presburger
  have fwd: "date_add ?a (weeks 51) = Inr ?s"
    using lo hi m by (simp add: date_add_def weeks_def MINORD_def Let_def)
  have own: "weekday today = 6 \<longrightarrow> ?s = today"
    unfolding weekday_def by presburger
  show ?thesis
    using a s va wa ws fwd own m by simp
qed

text \<open>
  C1 as stated, for every date: the anchor is a Sunday, 51 weeks before the Sunday of
  today's week. It fails on 0001-01-01, a Monday: the Sunday of that week would be the
  day before \<open>date.min\<close>, the subtraction raises \<open>OverflowError\<close> and no anchor is
  computed.
\<close>

theorem C1_counterexample_date_min:
  "valid_date 1 \<and> sunday_of_current_week 1 = Inl OverflowError
     \<and> leftmost_sunday 1 = Inl OverflowError"
  by (simp add: valid_date_def leftmost_sunday_def bind_def sunday_of_current_week_def
      weekday_def date_sub_def date_add_def MINORD_def MAXORD_def Let_def)

text \<open>
  C1, amended: for every date \<open>today\<close> from 0001-12-30 (day 364) on, the anchor is
  computed and is a Sunday; the anchor plus 51 weeks is the Sunday of today's own week,
  that is the Sunday among today and the six days before it, and today itself when today
  is a Sunday. For every earlier date the subtraction leaves the range of \<open>date\<close>:
  \<open>leftmost_sunday\<close> raises \<open>OverflowError\<close> and no anchor is computed.
\<close>

theorem C1_anchor_is_sunday:
  assumes "valid_date today"
  shows "if 364 \<le> today
         then \<exists>anchor s. leftmost_sunday today = Inr anchor
                \<and> sunday_of_current_week today = Inr s
                \<and> valid_date anchor \<and> weekday anchor = 6
                \<and> date_add anchor (weeks 51) = Inr s
                \<and> weekday s = 6 \<and> s \<le> today \<and> today < s + 7
                \<and> (weekday today = 6 \<longrightarrow> s = today)
         else leftmost_sunday today = Inl OverflowError"
proof (cases "364 \<le> today")
  case True
  from anchor_from_day_364 [OF assms True] True show ?thesis
    by simp
next
  case False
  then have "today < 364" by simp
  from leftmost_sunday_early [OF this] False show ?thesis
    by simp
qed

theorem C1_anchor_is_sunday_witness:
  "(\<exists>anchor s. leftmost_sunday 739926 = Inr anchor
           \<and> sunday_of_current_week 739926 = Inr s
           \<and> valid_date anchor \<and> weekday anchor = 6
           \<and> date_add anchor (weeks 51) = Inr s
           \<and> weekday s = 6 \<and> s \<le> 739926 \<and> 739926 < s + 7)
   \<and> leftmost_sunday 363 = Inl OverflowError"
proof -
  have v: "valid_date 739926" and v': "valid_date 363"
    by (simp_all add: valid_date_def MINORD_def MAXORD_def)
  have "\<exists>anchor s. leftmost_sunday 739926 = Inr anchor
           \<and> sunday_of_current_week 739926 = Inr s
           \<and> valid_date anchor \<and> weekday anchor = 6
           \<and> date_add anchor (weeks 51) = Inr s
           \<and> weekday s = 6 \<and> s \<le> 739926 \<and> 739926 < s + 7"
    using C1_anchor_is_sunday [OF v] by auto
  moreover have "leftmost_sunday 363 = Inl OverflowError"
    using C1_anchor_is_sunday [OF v'] by simp
  ultimately show ?thesis by blast
qed

section \<open>Properties of the planner\<close>

subsection \<open>What the loops return\<close>

lemma plan_rows_value:
  assumes "is_canvas canvas" and "0 \<le> col" and "col < 52"
    and "\<forall>row \<in> set rows. 0 \<le> row \<and> row < 7"
    and "\<forall>row \<in> set rows. lit canvas row col \<longrightarrow> valid_date (col_sun + row)"
  shows "plan_rows canvas col_sun col rows dates =
           Inr (dates @ map (\<lambda>row. col_sun + row) (filter (\<lambda>row. lit canvas row col) rows))"
  using assms(4,5)
proof (induction rows arbitrary: dates)
  case Nil
  show ?case by simp
next
  case (Cons row rows)
  have r: "0 \<le> row" "row < 7"
    using Cons.prems(1) by simp_all
  have len: "length canvas = 7"
    using assms(1) by (simp add: is_canvas_def)
  have "nat row < length canvas"
    using r len by simp
  then have "canvas ! nat row \<in> set canvas"
    by (rule nth_mem)
  then have llen: "length (canvas ! nat row) = 52"
    using assms(1) by (simp add: is_canvas_def)
  have g1: "getitem canvas row = Inr (canvas ! nat row)"
    using r len by (simp add: getitem_in_range)
  have g2: "getitem (canvas ! nat row) col = Inr (canvas ! nat row ! nat col)"
    using assms(2,3) llen by (simp add: getitem_in_range)
  have IH: "\<And>ds. plan_rows canvas col_sun col rows ds =
           Inr (ds @ map (\<lambda>row. col_sun + row) (filter (\<lambda>row. lit canvas row col) rows))"
    using Cons.IH Cons.prems by simp
  show ?case
  proof (cases "lit canvas row col")
    case True
    then have "valid_date (col_sun + row)"
      using Cons.prems(2) by simp
    then have "date_add col_sun row = Inr (col_sun + row)"
      by (rule date_add_valid)
    then show ?thesis
      using True g1 g2 IH by (simp add: lit_def)
  next
    case False
    then show ?thesis
      using g1 g2 IH by (simp add: lit_def)
  qed
qed

lemma plan_cols_value:
  assumes "is_canvas canvas"
    and "\<forall>col \<in> set cols. 0 \<le> col \<and> col < 52"
    and "\<forall>col \<in> set cols. valid_date (start + 7 * col)"
    and "\<forall>col \<in> set cols. \<forall>row \<in> set (py_range 7).
           lit canvas row col \<longrightarrow> valid_date (start + 7 * col + row)"
  shows "plan_cols canvas start cols dates =
           Inr (dates @ concat (map (\<lambda>col. map (\<lambda>row. start + 7 * col + row)
                                     (filter (\<lambda>row. lit canvas row col) (py_range 7))) cols))"
  using assms(2,3,4)
proof (induction cols arbitrary: dates)
  case Nil
  show ?case by simp
next
  case (Cons col cols)
  have c: "0 \<le> col" "col < 52"
    using Cons.prems(1) by simp_all
  have "valid_date (start + 7 * col)"
    using Cons.prems(2) by simp
  then have d: "date_add start (weeks col) = Inr (start + 7 * col)"
    by (simp add: weeks_def date_add_valid)
  have rng: "\<forall>row \<in> set (py_range 7). 0 \<le> row \<and> row < 7"
    by (auto simp: py_range_def)
  have v: "\<forall>row \<in> set (py_range 7). lit canvas row col \<longrightarrow> valid_date (start + 7 * col + row)"
    using Cons.prems(3) by simp
  have rows: "plan_rows canvas (start + 7 * col) col (py_range 7) dates =
           Inr (dates @ map (\<lambda>row. start + 7 * col + row)
                  (filter (\<lambda>row. lit canvas row col) (py_range 7)))"
    by (rule plan_rows_value [OF assms(1) c rng v])
  have IH: "\<And>ds. plan_cols canvas start cols ds =
           Inr (ds @ concat (map (\<lambda>col. map (\<lambda>row. start + 7 * col + row)
                                     (filter (\<lambda>row. lit canvas row col) (py_range 7))) cols))"
    using Cons.IH Cons.prems by simp
  show ?case
    using d rows IH by simp
qed

lemma emitted_as_map:
  "concat (map (\<lambda>col. map (\<lambda>row. start + 7 * col + row)
                 (filter (\<lambda>row. lit canvas row col) (py_range 7))) cols)
   = map (date_of_cell start)
       (concat (map (\<lambda>col. map (\<lambda>row. (col, row)) (filter (\<lambda>row. lit canvas row col) (py_range 7))) cols))"
  by (induction cols) (simp_all add: date_of_cell_def)

lemma lit_cells_range:
  "cell \<in> set (lit_cells canvas) \<Longrightarrow>
     0 \<le> fst cell \<and> fst cell < 52 \<and> 0 \<le> snd cell \<and> snd cell < 7 \<and> lit canvas (snd cell) (fst cell)"
  by (auto simp: lit_cells_def py_range_def)

lemma set_lit_cells:
  "set (lit_cells canvas) =
     {(col, row). 0 \<le> col \<and> col < 52 \<and> 0 \<le> row \<and> row < 7 \<and> lit canvas row col}"
proof -
  have "\<And>n k. k \<in> set (py_range n) \<longleftrightarrow> 0 \<le> k \<and> k < n"
  proof -
    fix n k :: int
    show "k \<in> set (py_range n) \<longleftrightarrow> 0 \<le> k \<and> k < n"
    proof
      assume "k \<in> set (py_range n)"
      then show "0 \<le> k \<and> k < n" by (auto simp: py_range_def)
    next
      assume "0 \<le> k \<and> k < n"
      then have "nat k \<in> set [0..<nat n]" and "k = int (nat k)" by auto
      then show "k \<in> set (py_range n)"
        unfolding py_range_def by (metis imageI set_map)
    qed
  qed
  then show ?thesis
    by (auto simp: lit_cells_def)
qed

lemma plan_dates_value:
  assumes cv: "is_canvas canvas"
    and anchor: "leftmost_sunday (clock w) = Inr anchor"
    and top: "anchor + 363 \<le> MAXORD \<or> \<not> lit canvas 6 51"
  shows "plan_dates w canvas = Inr (map (date_of_cell anchor) (lit_cells canvas))"
proof -
  have lo: "MINORD \<le> anchor" and hi: "anchor + 362 \<le> MAXORD"
    using leftmost_sunday_Inr [OF anchor] by simp_all
  have rng: "\<forall>col \<in> set (py_range 52). 0 \<le> col \<and> col < 52"
    by (auto simp: py_range_def)
  have v1: "\<forall>col \<in> set (py_range 52). valid_date (anchor + 7 * col)"
    using lo hi by (auto simp: py_range_def valid_date_def MINORD_def)
  have v2: "\<forall>col \<in> set (py_range 52). \<forall>row \<in> set (py_range 7).
           lit canvas row col \<longrightarrow> valid_date (anchor + 7 * col + row)"
  proof (intro ballI impI)
    fix col row
    assume c: "col \<in> set (py_range 52)" and r: "row \<in> set (py_range 7)"
      and l: "lit canvas row col"
    have b: "0 \<le> col" "col < 52" "0 \<le> row" "row < 7"
      using c r by (auto simp: py_range_def)
    show "valid_date (anchor + 7 * col + row)"
    proof (cases "col = 51 \<and> row = 6")
      case True
      then have "anchor + 363 \<le> MAXORD"
        using top l by auto
      then show ?thesis
        using True lo by (simp add: valid_date_def MINORD_def)
    next
      case False
      then have "7 * col + row \<le> 362"
        using b by linarith
      then show ?thesis
        using lo hi b by (simp add: valid_date_def MINORD_def)
    qed
  qed
  show ?thesis
    unfolding plan_dates_def Let_def anchor
    by (simp add: plan_cols_value [OF cv rng v1 v2] emitted_as_map lit_cells_def)
qed

subsection \<open>Every emitted date comes from a cell\<close>

lemma plan_rows_subset:
  "plan_rows canvas col_sun col rows dates = Inr ds \<Longrightarrow>
     set ds \<subseteq> set dates \<union> (\<lambda>row. col_sun + row) ` set rows"
proof (induction rows arbitrary: dates)
  case Nil
  then show ?case by auto
next
  case (Cons row rows)
  from Cons.prems obtain line cell where
    "getitem canvas row = Inr line" "getitem line col = Inr cell"
    and rest: "(if cell \<noteq> 0
          then bind (date_add col_sun row) (\<lambda>d. plan_rows canvas col_sun col rows (dates @ [d]))
          else plan_rows canvas col_sun col rows dates) = Inr ds"
    by (auto simp: bind_eq_Inr)
  show ?case
  proof (cases "cell \<noteq> 0")
    case True
    with rest obtain d where d: "date_add col_sun row = Inr d"
      and r: "plan_rows canvas col_sun col rows (dates @ [d]) = Inr ds"
      by (auto simp: bind_eq_Inr)
    from d have "d = col_sun + row"
      by (simp add: date_add_def Let_def split: if_splits)
    with Cons.IH [OF r] show ?thesis by auto
  next
    case False
    with rest have "plan_rows canvas col_sun col rows dates = Inr ds" by simp
    from Cons.IH [OF this] show ?thesis by auto
  qed
qed

lemma plan_cols_subset:
  "plan_cols canvas start cols dates = Inr ds \<Longrightarrow>
     set ds \<subseteq> set dates \<union> {start + 7 * col + row |col row. col \<in> set cols \<and> row \<in> set (py_range 7)}"
proof (induction cols arbitrary: dates)
  case Nil
  then show ?case by auto
next
  case (Cons col cols)
  from Cons.prems obtain col_sun dates' where c: "date_add start (weeks col) = Inr col_sun"
    and r: "plan_rows canvas col_sun col (py_range 7) dates = Inr dates'"
    and rest: "plan_cols canvas start cols dates' = Inr ds"
    by (auto simp: bind_eq_Inr)
  from c have cs: "col_sun = start + 7 * col"
    by (simp add: date_add_def weeks_def Let_def split: if_splits)
  have a: "set dates' \<subseteq> set dates \<union> (\<lambda>row. start + 7 * col + row) ` set (py_range 7)"
    using plan_rows_subset [OF r] cs by simp
  have b: "set ds \<subseteq> set dates' \<union> {start + 7 * c + row |c row. c \<in> set cols \<and> row \<in> set (py_range 7)}"
    by (rule Cons.IH [OF rest])
  show ?case
  proof
    fix d assume "d \<in> set ds"
    with b have "d \<in> set dates' \<or> d \<in> {start + 7 * c + row |c row. c \<in> set cols \<and> row \<in> set (py_range 7)}"
      by auto
    then show "d \<in> set dates \<union> {start + 7 * c + row |c row. c \<in> set (col # cols) \<and> row \<in> set (py_range 7)}"
    proof
      assume "d \<in> set dates'"
      with a have "d \<in> set dates \<or> d \<in> (\<lambda>row. start + 7 * col + row) ` set (py_range 7)"
        by auto
      then show ?thesis by auto
    next
      assume "d \<in> {start + 7 * c + row |c row. c \<in> set cols \<and> row \<in> set (py_range 7)}"
      then show ?thesis by auto
    qed
  qed
qed

lemma plan_dates_bounds:
  assumes "plan_dates w canvas = Inr ds" and "d \<in> set ds"
  shows "\<exists>anchor. leftmost_sunday (clock w) = Inr anchor \<and> anchor \<le> d \<and> d \<le> anchor + 363"
proof -
  from assms(1) obtain anchor where a: "leftmost_sunday (clock w) = Inr anchor"
    and p: "plan_cols canvas anchor (py_range 52) [] = Inr ds"
    by (auto simp: plan_dates_def Let_def bind_eq_Inr)
  from plan_cols_subset [OF p] assms(2)
  obtain col row where "d = anchor + 7 * col + row" "col \<in> set (py_range 52)" "row \<in> set (py_range 7)"
    by auto
  then have "anchor \<le> d \<and> d \<le> anchor + 363"
    by (auto simp: py_range_def)
  with a show ?thesis by blast
qed

subsection \<open>Order, round trip and count\<close>

lemma sorted_emitted:
  assumes "sorted_wrt (<) cols"
  shows "sorted (concat (map (\<lambda>col. map (\<lambda>row. start + 7 * col + row)
                 (filter (P col) (py_range 7))) cols))"
  using assms
proof (induction cols)
  case Nil
  show ?case by simp
next
  case (Cons col cols)
  let ?G = "\<lambda>col. map (\<lambda>row. start + 7 * col + row) (filter (P col) (py_range 7))"
  have "sorted_wrt (<) (filter (P col) (py_range 7))"
    by (rule sorted_wrt_filter [OF sorted_wrt_py_range])
  then have "sorted_wrt (\<le>) (filter (P col) (py_range 7))"
    by (rule sorted_wrt_mono_rel [rotated]) simp
  then have g: "sorted (?G col)"
    by (simp add: sorted_wrt_map)
  have rest: "sorted (concat (map ?G cols))"
    using Cons by simp
  have le: "\<forall>x \<in> set (?G col). \<forall>y \<in> set (concat (map ?G cols)). x \<le> y"
  proof (intro ballI)
    fix x y
    assume "x \<in> set (?G col)" and "y \<in> set (concat (map ?G cols))"
    then obtain r c r' where "x = start + 7 * col + r" "r < 7"
      "y = start + 7 * c + r'" "0 \<le> r'" "c \<in> set cols"
      by (auto simp: py_range_def)
    moreover have "col < c"
      using Cons.prems \<open>c \<in> set cols\<close> by simp
    ultimately show "x \<le> y" by simp
  qed
  show ?case
    using g rest le by (simp add: sorted_append)
qed

lemma sorted_dates_of_lit_cells: "sorted (map (date_of_cell anchor) (lit_cells canvas))"
  unfolding lit_cells_def emitted_as_map [symmetric]
  by (rule sorted_emitted [OF sorted_wrt_py_range])

lemma cell_of_date_of_cell:
  assumes "0 \<le> snd cell" and "snd cell < 7"
  shows "cell_of_date anchor (date_of_cell anchor cell) = cell"
proof -
  have "(7 * fst cell + snd cell) div 7 = fst cell" and "(7 * fst cell + snd cell) mod 7 = snd cell"
    using assms by simp_all
  then show ?thesis
    by (simp add: cell_of_date_def date_of_cell_def days_between_def Let_def add.assoc)
qed

lemma round_trip_lit_cells:
  "map (cell_of_date anchor) (map (date_of_cell anchor) (lit_cells canvas)) = lit_cells canvas"
proof -
  have "\<forall>cell \<in> set (lit_cells canvas). cell_of_date anchor (date_of_cell anchor cell) = cell"
    using lit_cells_range cell_of_date_of_cell by blast
  then show ?thesis
    by (simp add: map_idI)
qed

lemma length_filter_sum_list:
  "length (filter P xs) = sum_list (map (\<lambda>x. if P x then 1 else 0) xs)"
  by (induction xs) simp_all

lemma sum_list_upt_sum: "sum_list (map f [0..<n]) = sum f {0..<n}"
  by (simp add: interv_sum_list_conv_sum_set_nat)

lemma line_count:
  assumes "length line = n"
  shows "length (filter (\<lambda>cell. cell \<noteq> (0::int)) line) = (\<Sum>c = 0..<n. if line ! c \<noteq> 0 then 1 else 0)"
proof -
  have "line = map (\<lambda>c. line ! c) [0..<n]"
    using assms by (metis map_nth)
  then have "length (filter (\<lambda>cell. cell \<noteq> 0) line)
      = length (filter (\<lambda>cell. cell \<noteq> 0) (map (\<lambda>c. line ! c) [0..<n]))"
    by simp
  also have "\<dots> = sum_list (map (\<lambda>c. if line ! c \<noteq> 0 then 1 else 0) [0..<n])"
    by (simp add: length_filter_sum_list filter_map comp_def)
  finally show ?thesis
    by (simp add: sum_list_upt_sum)
qed

lemma lit_count_sum:
  assumes "is_canvas canvas"
  shows "lit_count canvas = (\<Sum>r = 0..<7. \<Sum>c = 0..<52. if canvas ! r ! c \<noteq> 0 then 1 else 0)"
proof -
  have len: "length canvas = 7"
    using assms by (simp add: is_canvas_def)
  have rows: "\<And>r. r < 7 \<Longrightarrow> length (canvas ! r) = 52"
    using assms len by (simp add: is_canvas_def)
  have cv: "canvas = map (\<lambda>r. canvas ! r) [0..<7]"
    using len by (metis map_nth)
  have "lit_count canvas = sum_list (map (\<lambda>line. length (filter (\<lambda>cell. cell \<noteq> 0) line)) canvas)"
    by (simp add: lit_count_def filter_concat length_concat comp_def)
  also have "\<dots> = sum_list (map (\<lambda>line. length (filter (\<lambda>cell. cell \<noteq> 0) line)) (map (\<lambda>r. canvas ! r) [0..<7]))"
    using cv by simp
  also have "\<dots> = (\<Sum>r = 0..<7. length (filter (\<lambda>cell. cell \<noteq> 0) (canvas ! r)))"
    by (simp only: map_map comp_def sum_list_upt_sum)
  also have "\<dots> = (\<Sum>r = 0..<7. \<Sum>c = 0..<52. if canvas ! r ! c \<noteq> 0 then 1 else 0)"
    by (rule sum.cong) (simp_all add: line_count rows)
  finally show ?thesis .
qed

lemma length_lit_cells_sum:
  "length (lit_cells canvas) = (\<Sum>c = 0..<52. \<Sum>r = 0..<7. if canvas ! r ! c \<noteq> 0 then 1 else 0)"
proof -
  have "length (lit_cells canvas)
      = sum_list (map (\<lambda>c. length (filter (\<lambda>row. lit canvas row (int c)) (py_range 7))) [0..<52])"
    by (simp add: lit_cells_def length_concat comp_def py_range_def)
  also have "\<dots> = (\<Sum>c = 0..<52. length (filter (\<lambda>row. lit canvas row (int c)) (py_range 7)))"
    by (simp only: sum_list_upt_sum)
  also have "\<dots> = (\<Sum>c = 0..<52. \<Sum>r = 0..<7. if canvas ! r ! c \<noteq> 0 then 1 else 0)"
  proof (rule sum.cong)
    fix c :: nat
    have "length (filter (\<lambda>row. lit canvas row (int c)) (py_range 7))
        = sum_list (map (\<lambda>r. if canvas ! r ! c \<noteq> 0 then 1 else 0) [0..<7])"
      by (simp add: py_range_def length_filter_sum_list filter_map comp_def lit_def)
    then show "length (filter (\<lambda>row. lit canvas row (int c)) (py_range 7))
        = (\<Sum>r = 0..<7. if canvas ! r ! c \<noteq> 0 then 1 else 0)"
      by (simp only: sum_list_upt_sum)
  qed simp
  finally show ?thesis .
qed

lemma length_lit_cells:
  assumes "is_canvas canvas"
  shows "length (lit_cells canvas) = lit_count canvas"
  unfolding length_lit_cells_sum lit_count_sum [OF assms]
  by (rule sum.swap)

subsection \<open>Examples\<close>

lemma is_canvas_corner: "is_canvas corner_canvas"
  by (simp add: is_canvas_def corner_canvas_def)

lemma is_canvas_I': "is_canvas canvas_I"
  by code_simp

lemma corner_unlit_I: "\<not> lit canvas_I 6 51"
  by code_simp

lemma anchor_2026: "leftmost_sunday (clock (quiet_world 739927)) = Inr 739564"
  by code_simp

lemma plan_I_2026: "plan_dates (quiet_world 739927) canvas_I =
    Inr [739725, 739729, 739732, 739736, 739739, 739740, 739741, 739742,
         739743, 739746, 739750, 739753, 739757]"
  by code_simp

lemma lit_cells_I:
  "lit_cells canvas_I =
     [(23, 0), (23, 4), (24, 0), (24, 4), (25, 0), (25, 1), (25, 2), (25, 3), (25, 4),
      (26, 0), (26, 4), (27, 0), (27, 4)]"
  by code_simp

subsection \<open>The cell whose date is after the last date\<close>

lemma plan_rows_append:
  "plan_rows canvas col_sun col (rows @ rows') dates =
     bind (plan_rows canvas col_sun col rows dates) (\<lambda>ds. plan_rows canvas col_sun col rows' ds)"
proof (induction rows arbitrary: dates)
  case Nil
  show ?case by simp
next
  case (Cons row rows)
  show ?case
    by (simp add: Cons.IH bind_def split: sum.splits)
qed

lemma plan_cols_append:
  "plan_cols canvas start (cols @ cols') dates =
     bind (plan_cols canvas start cols dates) (\<lambda>ds. plan_cols canvas start cols' ds)"
proof (induction cols arbitrary: dates)
  case Nil
  show ?case by simp
next
  case (Cons col cols)
  show ?case
    by (simp add: Cons.IH bind_def split: sum.splits)
qed

lemma py_range_last: "py_range 52 = py_range 51 @ [51]" "py_range 7 = py_range 6 @ [6]"
  by code_simp+

lemma plan_dates_overflow:
  assumes cv: "is_canvas canvas"
    and anchor: "leftmost_sunday (clock w) = Inr anchor"
    and l: "lit canvas 6 51" and over: "MAXORD < anchor + 363"
  shows "plan_dates w canvas = Inl OverflowError"
proof -
  have lo: "MINORD \<le> anchor" and hi: "anchor + 362 \<le> MAXORD"
    using leftmost_sunday_Inr [OF anchor] by simp_all
  have r51: "\<forall>col \<in> set (py_range 51). 0 \<le> col \<and> col < 52"
    by (auto simp: py_range_def)
  have v1: "\<forall>col \<in> set (py_range 51). valid_date (anchor + 7 * col)"
    using lo hi by (auto simp: py_range_def valid_date_def MINORD_def)
  have v2: "\<forall>col \<in> set (py_range 51). \<forall>row \<in> set (py_range 7).
           lit canvas row col \<longrightarrow> valid_date (anchor + 7 * col + row)"
    using lo hi by (auto simp: py_range_def valid_date_def MINORD_def)
  obtain ds where first: "plan_cols canvas anchor (py_range 51) [] = Inr ds"
    using plan_cols_value [OF cv r51 v1 v2] by simp
  have sun: "date_add anchor (weeks 51) = Inr (anchor + 357)"
    using lo hi by (simp add: date_add_def weeks_def MINORD_def Let_def)
  have r6: "\<forall>row \<in> set (py_range 6). 0 \<le> row \<and> row < 7"
    by (auto simp: py_range_def)
  have v3: "\<forall>row \<in> set (py_range 6). lit canvas row 51 \<longrightarrow> valid_date (anchor + 357 + row)"
    using lo hi by (auto simp: py_range_def valid_date_def MINORD_def)
  obtain ds' where rows: "plan_rows canvas (anchor + 357) 51 (py_range 6) ds = Inr ds'"
    using plan_rows_value [OF cv _ _ r6 v3, of ds] by simp
  have len: "length canvas = 7"
    using cv by (simp add: is_canvas_def)
  then have "canvas ! 6 \<in> set canvas"
    by simp
  then have llen: "length (canvas ! 6) = 52"
    using cv by (simp add: is_canvas_def)
  have g1: "getitem canvas 6 = Inr (canvas ! 6)"
    using len by (simp add: getitem_def Let_def)
  have g2: "getitem (canvas ! 6) 51 = Inr (canvas ! 6 ! 51)"
    using llen by (simp add: getitem_def Let_def)
  have cell: "canvas ! 6 ! 51 \<noteq> 0"
    using l by (simp add: lit_def)
  have add: "date_add (anchor + 357) 6 = Inl OverflowError"
    using over by (simp add: date_add_def Let_def)
  have last: "plan_rows canvas (anchor + 357) 51 [6] ds' = Inl OverflowError"
    using g1 g2 cell add by simp
  have "plan_rows canvas (anchor + 357) 51 (py_range 7) ds = Inl OverflowError"
    unfolding py_range_last plan_rows_append rows using last by simp
  then have "plan_cols canvas anchor [51] ds = Inl OverflowError"
    using sun by simp
  then have "plan_cols canvas anchor (py_range 52) [] = Inl OverflowError"
    unfolding py_range_last plan_cols_append first by simp
  then show ?thesis
    by (simp add: plan_dates_def Let_def anchor)
qed

lemma anchor_9999: "leftmost_sunday (clock (quiet_world 3652059)) = Inr 3651697"
  by code_simp

lemma lit_corner: "lit corner_canvas 6 51"
  by code_simp

subsection \<open>The claims about the planner\<close>

text \<open>
  C2 as stated, for every canvas and every anchor: the emitted dates are in
  non-decreasing order and as many as the lit cells. It fails in the last week of the
  year 9999: on 9999-12-31 the anchor is computed, but the date of the cell of row 6 and
  column 51 would be 10000-01-01; the addition raises \<open>OverflowError\<close> and no date is
  emitted for a canvas with one lit cell.
\<close>

theorem C2_counterexample_date_max:
  "is_canvas corner_canvas \<and> lit_count corner_canvas = 1
     \<and> leftmost_sunday (clock (quiet_world 3652059)) = Inr 3651697
     \<and> plan_dates (quiet_world 3652059) corner_canvas = Inl OverflowError"
  by code_simp

text \<open>
  C2, amended: for every canvas of 7 rows and 52 columns and every anchor the planner
  computes, unless the cell of row 6 and column 51 is lit and its date, the anchor plus
  51 weeks and 6 days, is after 9999-12-31, \<open>plan_dates\<close> returns a list of dates in
  non-decreasing order whose length is the number of lit cells of the canvas. In the
  excluded case the date addition raises \<open>OverflowError\<close> and no list is returned.
\<close>

theorem C2_plan_sorted_count:
  assumes "is_canvas canvas" and "leftmost_sunday (clock w) = Inr anchor"
  shows "if anchor + weeks 51 + 6 \<le> MAXORD \<or> \<not> lit canvas 6 51
         then \<exists>ds. plan_dates w canvas = Inr ds \<and> sorted ds \<and> length ds = lit_count canvas
         else plan_dates w canvas = Inl OverflowError"
proof (cases "anchor + weeks 51 + 6 \<le> MAXORD \<or> \<not> lit canvas 6 51")
  case True
  then have top: "anchor + 363 \<le> MAXORD \<or> \<not> lit canvas 6 51"
    by (auto simp: weeks_def)
  have "plan_dates w canvas = Inr (map (date_of_cell anchor) (lit_cells canvas))"
    by (rule plan_dates_value [OF assms top])
  moreover have "sorted (map (date_of_cell anchor) (lit_cells canvas))"
    by (rule sorted_dates_of_lit_cells)
  moreover have "length (map (date_of_cell anchor) (lit_cells canvas)) = lit_count canvas"
    using length_lit_cells [OF assms(1)] by simp
  ultimately have "\<exists>ds. plan_dates w canvas = Inr ds \<and> sorted ds \<and> length ds = lit_count canvas"
    by blast
  with True show ?thesis
    by simp
next
  case False
  then have "lit canvas 6 51" and "MAXORD < anchor + 363"
    by (auto simp: weeks_def)
  from plan_dates_overflow [OF assms this] False show ?thesis
    by simp
qed

theorem C2_plan_sorted_count_witness:
  "(\<exists>ds. plan_dates (quiet_world 739927) canvas_I = Inr ds \<and> sorted ds
      \<and> length ds = lit_count canvas_I)
   \<and> plan_dates (quiet_world 3652059) corner_canvas = Inl OverflowError"
proof -
  have a: "739564 + weeks 51 + 6 \<le> MAXORD \<or> \<not> lit canvas_I 6 51"
    by (simp add: weeks_def MAXORD_def)
  have b: "\<not> (3651697 + weeks 51 + 6 \<le> MAXORD \<or> \<not> lit corner_canvas 6 51)"
    using lit_corner by (simp add: weeks_def MAXORD_def)
  have "\<exists>ds. plan_dates (quiet_world 739927) canvas_I = Inr ds \<and> sorted ds
      \<and> length ds = lit_count canvas_I"
    using C2_plan_sorted_count [OF is_canvas_I' anchor_2026] a by simp
  moreover have "plan_dates (quiet_world 3652059) corner_canvas = Inl OverflowError"
    using C2_plan_sorted_count [OF is_canvas_corner anchor_9999] b by simp
  ultimately show ?thesis by blast
qed

text \<open>
  C3 as stated, for every lit cell: the date emitted for the cell gives back the cell. It
  fails on 9999-12-26, a Sunday, for the lit cell of row 6 and column 51: no date is
  emitted for it, the planner raises \<open>OverflowError\<close>.
\<close>

theorem C3_counterexample_last_week:
  "is_canvas corner_canvas \<and> lit corner_canvas 6 51
     \<and> leftmost_sunday (clock (quiet_world 3652054)) = Inr 3651697
     \<and> plan_dates (quiet_world 3652054) corner_canvas = Inl OverflowError"
  by code_simp

text \<open>
  C3, amended: for every canvas of 7 rows and 52 columns and every anchor the planner
  computes, unless the cell of row 6 and column 51 is lit and its date is after
  9999-12-31, \<open>plan_dates\<close> returns one date for each lit cell, the anchor plus
  \<open>column\<close> weeks plus \<open>row\<close> days, column by column and top to bottom; computing
  \<open>d = (date - anchor).days\<close> and \<open>(d div 7, d mod 7)\<close> for the emitted dates gives
  back the \<open>(column, row)\<close> pairs of the lit cells, and these are all the lit cells. In
  the excluded case \<open>plan_dates\<close> raises \<open>OverflowError\<close> and emits no date for any
  lit cell.
\<close>

theorem C3_round_trip:
  assumes "is_canvas canvas" and "leftmost_sunday (clock w) = Inr anchor"
  shows "if anchor + weeks 51 + 6 \<le> MAXORD \<or> \<not> lit canvas 6 51
         then plan_dates w canvas = Inr (map (date_of_cell anchor) (lit_cells canvas))
            \<and> map (cell_of_date anchor) (map (date_of_cell anchor) (lit_cells canvas))
                = lit_cells canvas
            \<and> set (lit_cells canvas) =
                {(col, row). 0 \<le> col \<and> col < 52 \<and> 0 \<le> row \<and> row < 7 \<and> lit canvas row col}
         else plan_dates w canvas = Inl OverflowError"
proof (cases "anchor + weeks 51 + 6 \<le> MAXORD \<or> \<not> lit canvas 6 51")
  case True
  then have top: "anchor + 363 \<le> MAXORD \<or> \<not> lit canvas 6 51"
    by (auto simp: weeks_def)
  show ?thesis
    using True plan_dates_value [OF assms top] round_trip_lit_cells set_lit_cells by simp
next
  case False
  then have "lit canvas 6 51" and "MAXORD < anchor + 363"
    by (auto simp: weeks_def)
  from plan_dates_overflow [OF assms this] False show ?thesis
    by simp
qed

theorem C3_round_trip_witness:
  "plan_dates (quiet_world 739927) canvas_I = Inr (map (date_of_cell 739564) (lit_cells canvas_I))
     \<and> map (cell_of_date 739564) (map (date_of_cell 739564) (lit_cells canvas_I)) = lit_cells canvas_I
     \<and> lit_cells canvas_I \<noteq> []
     \<and> plan_dates (quiet_world 3652059) corner_canvas = Inl OverflowError"
proof -
  have a: "739564 + weeks 51 + 6 \<le> MAXORD \<or> \<not> lit canvas_I 6 51"
    by (simp add: weeks_def MAXORD_def)
  have b: "\<not> (3651697 + weeks 51 + 6 \<le> MAXORD \<or> \<not> lit corner_canvas 6 51)"
    using lit_corner by (simp add: weeks_def MAXORD_def)
  have ne: "lit_cells canvas_I \<noteq> []"
    by code_simp
  have "plan_dates (quiet_world 739927) canvas_I = Inr (map (date_of_cell 739564) (lit_cells canvas_I))
     \<and> map (cell_of_date 739564) (map (date_of_cell 739564) (lit_cells canvas_I)) = lit_cells canvas_I"
    using C3_round_trip [OF is_canvas_I' anchor_2026] a by simp
  moreover have "plan_dates (quiet_world 3652059) corner_canvas = Inl OverflowError"
    using C3_round_trip [OF is_canvas_corner anchor_9999] b by simp
  ultimately show ?thesis
    using ne by blast
qed

text \<open>
  C10: every date that \<open>plan_dates\<close> returns lies between the anchor and the anchor plus
  51 weeks and 6 days, which is the Saturday of the current week (the Sunday of the
  current week plus 6 days). When the planner raises, it returns no date at all.
\<close>

theorem C10_dates_in_displayed_year:
  assumes "plan_dates w canvas = Inr ds"
  shows "\<exists>anchor s. leftmost_sunday (clock w) = Inr anchor
           \<and> sunday_of_current_week (clock w) = Inr s
           \<and> (\<forall>d \<in> set ds. anchor \<le> d \<and> d \<le> anchor + weeks 51 + 6 \<and> d \<le> s + 6)"
proof -
  from assms obtain anchor where a: "leftmost_sunday (clock w) = Inr anchor"
    by (auto simp: plan_dates_def Let_def bind_eq_Inr)
  have s: "sunday_of_current_week (clock w) = Inr (anchor + 357)"
    by (rule leftmost_sunday_Inr(2) [OF a])
  have "\<forall>d \<in> set ds. anchor \<le> d \<and> d \<le> anchor + weeks 51 + 6 \<and> d \<le> anchor + 357 + 6"
  proof
    fix d assume "d \<in> set ds"
    from plan_dates_bounds [OF assms this] a
    show "anchor \<le> d \<and> d \<le> anchor + weeks 51 + 6 \<and> d \<le> anchor + 357 + 6"
      by (auto simp: weeks_def)
  qed
  with a s show ?thesis by blast
qed

theorem C10_dates_in_displayed_year_witness:
  "\<exists>anchor s. leftmost_sunday (clock (quiet_world 739927)) = Inr anchor
           \<and> sunday_of_current_week (clock (quiet_world 739927)) = Inr s
           \<and> anchor \<le> 739725 \<and> 739757 \<le> anchor + weeks 51 + 6 \<and> 739757 \<le> s + 6"
proof -
  from C10_dates_in_displayed_year [OF plan_I_2026] obtain anchor s
    where a: "leftmost_sunday (clock (quiet_world 739927)) = Inr anchor"
      and s: "sunday_of_current_week (clock (quiet_world 739927)) = Inr s"
      and b: "\<forall>d \<in> set [739725, 739729, 739732, 739736, 739739, 739740, 739741, 739742,
         739743, 739746, 739750, 739753, 739757 :: int].
           anchor \<le> d \<and> d \<le> anchor + weeks 51 + 6 \<and> d \<le> s + 6"
    by blast
  from b have "anchor \<le> 739725 \<and> 739757 \<le> anchor + weeks 51 + 6 \<and> 739757 \<le> s + 6"
    by simp
  with a s show ?thesis by blast
qed

section \<open>Properties of the compositor\<close>

subsection \<open>Painting keeps the grid well-formed\<close>

lemma font_glyph_ok: "FONT_5x7 ch = Some g \<Longrightarrow> glyph_ok g"
  by (auto simp: FONT_5x7_def glyph_ok_def split: if_splits)

lemma paint_Nil [simp]: "paint canvas [] = canvas"
  by (simp add: paint_def)

lemma paint_append:
  "paint canvas (ts @ us) = paint (paint canvas ts) us"
  by (simp add: paint_def)

lemma paint_single:
  "paint canvas [(r, j)] = canvas[nat r := (canvas ! nat r)[nat j := 1]]"
  by (simp add: paint_def)

lemma grid_ok_update:
  assumes "grid_ok cols canvas" and "in_grid cols (r, j)"
  shows "grid_ok cols (canvas[nat r := (canvas ! nat r)[nat j := 1]])"
proof -
  have len: "length canvas = 7"
    using assms(1) by (simp add: grid_ok_def)
  have "0 \<le> r" and "r < 7"
    using assms(2) by (simp_all add: in_grid_def)
  then have r: "nat r < length canvas"
    using len by linarith
  have old: "\<forall>line \<in> set canvas. length line = nat cols \<and> (\<forall>cell \<in> set line. cell = 0 \<or> cell = 1)"
    using assms(1) by (simp add: grid_ok_def)
  have line: "canvas ! nat r \<in> set canvas"
    using r by (rule nth_mem)
  have new: "length ((canvas ! nat r)[nat j := 1]) = nat cols
       \<and> (\<forall>cell \<in> set ((canvas ! nat r)[nat j := 1]). cell = 0 \<or> cell = 1)"
  proof
    show "length ((canvas ! nat r)[nat j := 1]) = nat cols"
      using old line by simp
    show "\<forall>cell \<in> set ((canvas ! nat r)[nat j := 1]). cell = 0 \<or> cell = 1"
    proof
      fix cell assume "cell \<in> set ((canvas ! nat r)[nat j := 1])"
      then have "cell \<in> insert 1 (set (canvas ! nat r))"
        using set_update_subset_insert by fast
      then show "cell = 0 \<or> cell = 1"
        using old line by auto
    qed
  qed
  have "set (canvas[nat r := (canvas ! nat r)[nat j := 1]])
      \<subseteq> insert ((canvas ! nat r)[nat j := 1]) (set canvas)"
    by (rule set_update_subset_insert)
  then have "\<forall>line \<in> set (canvas[nat r := (canvas ! nat r)[nat j := 1]]).
      length line = nat cols \<and> (\<forall>cell \<in> set line. cell = 0 \<or> cell = 1)"
    using old new by blast
  then show ?thesis
    using len by (simp add: grid_ok_def)
qed

lemma grid_ok_paint:
  assumes "grid_ok cols canvas" and "\<forall>t \<in> set ts. in_grid cols t"
  shows "grid_ok cols (paint canvas ts)"
  using assms
proof (induction ts arbitrary: canvas)
  case Nil
  then show ?case by simp
next
  case (Cons t ts)
  obtain r j where t: "t = (r, j)" by (cases t)
  have "grid_ok cols (paint canvas [t])"
    unfolding t paint_single using Cons.prems t by (intro grid_ok_update) simp_all
  then have "grid_ok cols (paint (paint canvas [t]) ts)"
    using Cons by simp
  then show ?case
    using paint_append [of canvas "[t]" ts] by simp
qed

lemma row_writes_in_grid:
  assumes "0 \<le> r" and "r < 7"
  shows "\<forall>t \<in> set (row_writes glyph cols c r xs). in_grid cols t"
  using assms by (auto simp: row_writes_def in_grid_def)

lemma glyph_writes_in_grid:
  assumes "\<forall>r \<in> set rs. 0 \<le> r \<and> r < 7"
  shows "\<forall>t \<in> set (glyph_writes glyph cols c rs). in_grid cols t"
  using assms row_writes_in_grid by (fastforce simp: glyph_writes_def)

lemma letters_writes_in_grid:
  "\<forall>t \<in> set (letters_writes letters cols spacing c). in_grid cols t"
proof (induction letters arbitrary: c)
  case Nil
  show ?case by simp
next
  case (Cons glyph letters)
  have "\<forall>r \<in> set (py_range 7). 0 \<le> r \<and> r < 7"
    by (auto simp: py_range_def)
  then have "\<forall>t \<in> set (glyph_writes glyph cols c (py_range 7)). in_grid cols t"
    by (rule glyph_writes_in_grid)
  then show ?case
    using Cons.IH by auto
qed

lemma row_writes_Cons:
  "row_writes glyph cols c r (x # xs) =
     (if glyph ! nat r ! nat x = CHR ''1'' \<and> 0 \<le> c + x \<and> c + x < cols
      then (r, c + x) # row_writes glyph cols c r xs else row_writes glyph cols c r xs)"
  by (simp add: row_writes_def)

subsection \<open>What the loops return\<close>

lemma stamp_row_value:
  assumes g: "glyph_ok glyph" and r: "0 \<le> r" "r < 7"
    and xs: "\<forall>x \<in> set xs. 0 \<le> x \<and> x < 5"
    and st: "grid_ok cols (fst st)"
  shows "stamp_row glyph cols c r xs st =
           Inr (paint (fst st) (row_writes glyph cols c r xs),
                snd st @ row_writes glyph cols c r xs)"
  using xs st
proof (induction xs arbitrary: st)
  case Nil
  show ?case by (simp add: row_writes_def)
next
  case (Cons x xs)
  have x: "0 \<le> x" "x < 5"
    using Cons.prems(1) by simp_all
  have glen: "length glyph = 7"
    using g by (simp add: glyph_ok_def)
  then have "glyph ! nat r \<in> set glyph"
    using r by (intro nth_mem) simp
  then have llen: "length (glyph ! nat r) = 5"
    using g by (simp add: glyph_ok_def)
  have g1: "getitem glyph r = Inr (glyph ! nat r)"
    using r glen by (simp add: getitem_in_range)
  have g2: "getitem (glyph ! nat r) x = Inr (glyph ! nat r ! nat x)"
    using x llen by (simp add: getitem_in_range)
  have IH: "\<And>st'. grid_ok cols (fst st') \<Longrightarrow> stamp_row glyph cols c r xs st' =
           Inr (paint (fst st') (row_writes glyph cols c r xs),
                snd st' @ row_writes glyph cols c r xs)"
    using Cons.IH Cons.prems(1) by simp
  show ?case
  proof (cases "glyph ! nat r ! nat x = CHR ''1'' \<and> 0 \<le> c + x \<and> c + x < cols")
    case True
    have clen: "length (fst st) = 7"
      using Cons.prems(2) by (simp add: grid_ok_def)
    then have "fst st ! nat r \<in> set (fst st)"
      using r by (intro nth_mem) simp
    then have rlen: "length (fst st ! nat r) = nat cols"
      using Cons.prems(2) by (simp add: grid_ok_def)
    have c1: "getitem (fst st) r = Inr (fst st ! nat r)"
      using r clen by (simp add: getitem_in_range)
    have c2: "setitem (fst st ! nat r) (c + x) 1 = Inr ((fst st ! nat r)[nat (c + x) := 1])"
      using True rlen by (simp add: setitem_in_range)
    have c3: "setitem (fst st) r ((fst st ! nat r)[nat (c + x) := 1])
        = Inr ((fst st)[nat r := (fst st ! nat r)[nat (c + x) := 1]])"
      using r clen by (simp add: setitem_in_range)
    have ok: "grid_ok cols ((fst st)[nat r := (fst st ! nat r)[nat (c + x) := 1]])"
      using Cons.prems(2) True r by (intro grid_ok_update) (simp_all add: in_grid_def)
    have rw: "row_writes glyph cols c r (x # xs) = (r, c + x) # row_writes glyph cols c r xs"
      using True by (simp add: row_writes_Cons)
    have pt: "paint (fst st) ((r, c + x) # row_writes glyph cols c r xs)
        = paint ((fst st)[nat r := (fst st ! nat r)[nat (c + x) := 1]]) (row_writes glyph cols c r xs)"
      using paint_append [of "fst st" "[(r, c + x)]"] by (simp add: paint_single)
    show ?thesis
      using True g1 g2 c1 c2 c3 IH [of "((fst st)[nat r := (fst st ! nat r)[nat (c + x) := 1]], snd st @ [(r, c + x)])"] ok
      by (simp add: rw pt)
  next
    case False
    then have rw: "row_writes glyph cols c r (x # xs) = row_writes glyph cols c r xs"
      by (simp add: row_writes_Cons)
    show ?thesis
      using False g1 g2 IH [OF Cons.prems(2)] by (auto simp: rw)
  qed
qed

lemma stamp_glyph_value:
  assumes g: "glyph_ok glyph"
    and rs: "\<forall>r \<in> set rs. 0 \<le> r \<and> r < 7"
    and st: "grid_ok cols (fst st)"
  shows "stamp_glyph glyph cols c rs st =
           Inr (paint (fst st) (glyph_writes glyph cols c rs),
                snd st @ glyph_writes glyph cols c rs)"
  using rs st
proof (induction rs arbitrary: st)
  case Nil
  show ?case by (simp add: glyph_writes_def)
next
  case (Cons r rs)
  have r: "0 \<le> r" "r < 7"
    using Cons.prems(1) by simp_all
  have xs: "\<forall>x \<in> set (py_range 5). 0 \<le> x \<and> x < 5"
    by (auto simp: py_range_def)
  let ?ws = "row_writes glyph cols c r (py_range 5)"
  have row: "stamp_row glyph cols c r (py_range 5) st = Inr (paint (fst st) ?ws, snd st @ ?ws)"
    by (rule stamp_row_value [OF g r xs Cons.prems(2)])
  have ok: "grid_ok cols (paint (fst st) ?ws)"
    by (rule grid_ok_paint [OF Cons.prems(2) row_writes_in_grid [OF r]])
  have "stamp_glyph glyph cols c rs (paint (fst st) ?ws, snd st @ ?ws) =
           Inr (paint (paint (fst st) ?ws) (glyph_writes glyph cols c rs),
                (snd st @ ?ws) @ glyph_writes glyph cols c rs)"
    using Cons.IH [of "(paint (fst st) ?ws, snd st @ ?ws)"] Cons.prems(1) ok by simp
  then show ?case
    using row by (simp add: glyph_writes_def paint_append)
qed

lemma stamp_letters_value:
  assumes "\<forall>glyph \<in> set letters. glyph_ok glyph" and "grid_ok cols (fst st)"
  shows "stamp_letters letters cols spacing c st =
           Inr (paint (fst st) (letters_writes letters cols spacing c),
                snd st @ letters_writes letters cols spacing c)"
  using assms
proof (induction letters arbitrary: c st)
  case Nil
  show ?case by simp
next
  case (Cons glyph letters)
  have g: "glyph_ok glyph"
    using Cons.prems(1) by simp
  have rs: "\<forall>r \<in> set (py_range 7). 0 \<le> r \<and> r < 7"
    by (auto simp: py_range_def)
  let ?ws = "glyph_writes glyph cols c (py_range 7)"
  have one: "stamp_glyph glyph cols c (py_range 7) st = Inr (paint (fst st) ?ws, snd st @ ?ws)"
    by (rule stamp_glyph_value [OF g rs Cons.prems(2)])
  have ok: "grid_ok cols (paint (fst st) ?ws)"
    by (rule grid_ok_paint [OF Cons.prems(2) glyph_writes_in_grid [OF rs]])
  have "stamp_letters letters cols spacing (c + (5 + spacing)) (paint (fst st) ?ws, snd st @ ?ws) =
           Inr (paint (paint (fst st) ?ws) (letters_writes letters cols spacing (c + (5 + spacing))),
                (snd st @ ?ws) @ letters_writes letters cols spacing (c + (5 + spacing)))"
    using Cons.IH [of "(paint (fst st) ?ws, snd st @ ?ws)"] Cons.prems(1) ok by simp
  then show ?case
    using one by (simp add: paint_append)
qed

lemma blank_canvas_replicate:
  "blank_canvas rows cols = replicate (nat rows) (replicate (nat cols) 0)"
  by (simp add: blank_canvas_def py_range_def map_replicate_const)

lemma grid_ok_blank: "grid_ok cols (blank_canvas 7 cols)"
  by (simp add: blank_canvas_replicate grid_ok_def)

lemma measure_word_letters:
  "measure_word s spacing letters width =
     (letters @ map (\<lambda>ch. the (FONT_5x7 ch)) (filter (\<lambda>ch. FONT_5x7 ch \<noteq> None) s),
      width + (5 + spacing) * int (length (filter (\<lambda>ch. FONT_5x7 ch \<noteq> None) s)))"
proof (induction s arbitrary: letters width)
  case Nil
  show ?case by simp
next
  case (Cons ch s)
  show ?case
    by (cases "FONT_5x7 ch") (simp_all add: Cons.IH algebra_simps)
qed

lemma word_letters_ok: "\<forall>glyph \<in> set (word_letters word). glyph_ok glyph"
  by (auto simp: word_letters_def intro: font_glyph_ok)

lemma compose_word_writes_value:
  "compose_word_writes word cols spacing =
     Inr (paint (blank_canvas 7 cols)
            (letters_writes (word_letters word) cols spacing (start_column cols (word_width word spacing))),
          letters_writes (word_letters word) cols spacing (start_column cols (word_width word spacing)))"
proof -
  have m: "measure_word (upper word) spacing [] 0 =
      (word_letters word, (5 + spacing) * int (length (word_letters word)))"
    by (simp add: measure_word_letters word_letters_def)
  have w: "(if word_letters word \<noteq> [] then (5 + spacing) * int (length (word_letters word)) - spacing
            else (5 + spacing) * int (length (word_letters word))) = word_width word spacing"
    by (simp add: word_width_def Let_def)
  have "compose_word_writes word cols spacing =
      stamp_letters (word_letters word) cols spacing (start_column cols (word_width word spacing))
        (blank_canvas 7 cols, [])"
    unfolding compose_word_writes_def Let_def m by (simp only: prod.case w)
  then show ?thesis
    using stamp_letters_value [OF word_letters_ok, of cols "(blank_canvas 7 cols, [])" word spacing]
      grid_ok_blank by simp
qed

lemma compose_word_value:
  "compose_word word cols spacing =
     Inr (paint (blank_canvas 7 cols)
            (letters_writes (word_letters word) cols spacing (start_column cols (word_width word spacing))))"
  by (simp add: compose_word_def compose_word_writes_value)

subsection \<open>A lit cell was written, and a write comes from a glyph\<close>

lemma grid_ok_is_canvas: "grid_ok 52 canvas \<Longrightarrow> is_canvas canvas"
  by (simp add: grid_ok_def is_canvas_def)

lemma update_lit:
  assumes "grid_ok cols canvas" and "in_grid cols (r, j)" and "in_grid cols (r', j')"
    and "canvas[nat r' := (canvas ! nat r')[nat j' := 1]] ! nat r ! nat j \<noteq> 0"
  shows "(r, j) = (r', j') \<or> canvas ! nat r ! nat j \<noteq> 0"
proof (cases "r = r' \<and> j = j'")
  case True
  then show ?thesis by simp
next
  case False
  have b: "0 \<le> r" "r < 7" "0 \<le> j" "0 \<le> r'" "r' < 7" "0 \<le> j'"
    using assms(2,3) by (simp_all add: in_grid_def)
  have len: "length canvas = 7"
    using assms(1) by (simp add: grid_ok_def)
  have "canvas[nat r' := (canvas ! nat r')[nat j' := 1]] ! nat r ! nat j = canvas ! nat r ! nat j"
  proof (cases "r = r'")
    case True
    then have "j \<noteq> j'" using False by simp
    then have "nat j \<noteq> nat j'" using b by simp
    then show ?thesis
      using True b len by simp
  next
    case False
    then have "nat r \<noteq> nat r'" using b by simp
    then show ?thesis by simp
  qed
  then show ?thesis
    using assms(4) by simp
qed

lemma paint_lit:
  assumes "grid_ok cols canvas" and "\<forall>t \<in> set ts. in_grid cols t" and "in_grid cols (r, j)"
    and "paint canvas ts ! nat r ! nat j \<noteq> 0"
  shows "(r, j) \<in> set ts \<or> canvas ! nat r ! nat j \<noteq> 0"
  using assms(1,2,4)
proof (induction ts arbitrary: canvas)
  case Nil
  then show ?case by simp
next
  case (Cons t ts)
  obtain r' j' where t: "t = (r', j')" by (cases t)
  let ?cv = "canvas[nat r' := (canvas ! nat r')[nat j' := 1]]"
  have tin: "in_grid cols (r', j')"
    using Cons.prems(2) t by simp
  have ok: "grid_ok cols ?cv"
    by (rule grid_ok_update [OF Cons.prems(1) tin])
  have p: "paint canvas (t # ts) = paint ?cv ts"
    using paint_append [of canvas "[t]" ts] by (simp add: t paint_single)
  have "(r, j) \<in> set ts \<or> ?cv ! nat r ! nat j \<noteq> 0"
    using Cons.IH [OF ok] Cons.prems(2,3) p by simp
  then show ?case
  proof
    assume "(r, j) \<in> set ts"
    then show ?thesis by simp
  next
    assume "?cv ! nat r ! nat j \<noteq> 0"
    from update_lit [OF Cons.prems(1) assms(3) tin this] show ?thesis
      by (auto simp: t)
  qed
qed

lemma blank_unlit:
  assumes "in_grid cols (r, j)"
  shows "blank_canvas 7 cols ! nat r ! nat j = 0"
proof -
  have "0 \<le> r" "r < 7" "0 \<le> j" "j < cols"
    using assms by (simp_all add: in_grid_def)
  then have "nat r < 7" and "nat j < nat cols"
    by linarith+
  then show ?thesis
    by (simp add: blank_canvas_replicate)
qed

lemma glyph_writes_origin:
  assumes "(r, j) \<in> set (glyph_writes glyph cols c rs)"
  shows "\<exists>x. 0 \<le> x \<and> x < 5 \<and> glyph ! nat r ! nat x = CHR ''1'' \<and> j = c + x"
  using assms by (auto simp: glyph_writes_def row_writes_def py_range_def)

lemma letters_writes_origin:
  assumes "(r, j) \<in> set (letters_writes letters cols spacing c)"
  shows "\<exists>k x. k < length letters \<and> 0 \<le> x \<and> x < 5 \<and> letters ! k ! nat r ! nat x = CHR ''1''
           \<and> j = c + (5 + spacing) * int k + x"
  using assms
proof (induction letters arbitrary: c)
  case Nil
  then show ?case by simp
next
  case (Cons glyph letters)
  from Cons.prems have "(r, j) \<in> set (glyph_writes glyph cols c (py_range 7))
      \<or> (r, j) \<in> set (letters_writes letters cols spacing (c + (5 + spacing)))"
    by simp
  then show ?case
  proof
    assume "(r, j) \<in> set (glyph_writes glyph cols c (py_range 7))"
    from glyph_writes_origin [OF this] obtain x
      where "0 \<le> x" "x < 5" "glyph ! nat r ! nat x = CHR ''1''" "j = c + x"
      by blast
    then have "0 < length (glyph # letters) \<and> 0 \<le> x \<and> x < 5
        \<and> (glyph # letters) ! 0 ! nat r ! nat x = CHR ''1'' \<and> j = c + (5 + spacing) * int 0 + x"
      by simp
    then show ?thesis by blast
  next
    assume "(r, j) \<in> set (letters_writes letters cols spacing (c + (5 + spacing)))"
    from Cons.IH [OF this] obtain k x
      where "k < length letters" "0 \<le> x" "x < 5" "letters ! k ! nat r ! nat x = CHR ''1''"
        "j = c + (5 + spacing) + (5 + spacing) * int k + x"
      by blast
    then have "Suc k < length (glyph # letters) \<and> 0 \<le> x \<and> x < 5
        \<and> (glyph # letters) ! Suc k ! nat r ! nat x = CHR ''1''
        \<and> j = c + (5 + spacing) * int (Suc k) + x"
      by (simp add: algebra_simps)
    then show ?thesis by blast
  qed
qed

lemma font_bottom_row:
  assumes "FONT_5x7 ch = Some g" and "0 \<le> x" and "x < 5" and "g ! 6 ! nat x = CHR ''1''"
  shows "x = 0 \<or> x = 4"
proof -
  have "x = 0 \<or> x = 1 \<or> x = 2 \<or> x = 3 \<or> x = 4"
    using assms(2,3) by presburger
  then show ?thesis
    using assms(1,4) by (auto simp: FONT_5x7_def split: if_splits)
qed

lemma word_letters_font:
  assumes "k < length (word_letters word)"
  shows "\<exists>ch. FONT_5x7 ch = Some (word_letters word ! k)"
proof -
  have "word_letters word ! k \<in> set (word_letters word)"
    using assms by (rule nth_mem)
  then show ?thesis
    by (auto simp: word_letters_def)
qed

lemma corner_unlit:
  assumes "compose_word word 52 1 = Inr canvas"
  shows "\<not> lit canvas 6 51"
proof
  assume l: "lit canvas 6 51"
  let ?c = "start_column 52 (word_width word 1)"
  let ?ws = "letters_writes (word_letters word) 52 1 ?c"
  have cv: "canvas = paint (blank_canvas 7 52) ?ws"
    using assms by (simp add: compose_word_value)
  have g: "in_grid 52 (6, 51)"
    by (simp add: in_grid_def)
  have "paint (blank_canvas 7 52) ?ws ! nat 6 ! nat 51 \<noteq> 0"
    using l cv by (simp add: lit_def)
  from paint_lit [OF grid_ok_blank letters_writes_in_grid g this]
  have "(6, 51) \<in> set ?ws"
    using blank_unlit [OF g] by simp
  from letters_writes_origin [OF this] obtain k x
    where k: "k < length (word_letters word)" and x: "0 \<le> x" "x < 5"
      and bit: "word_letters word ! k ! nat 6 ! nat x = CHR ''1''"
      and pos: "51 = ?c + (5 + 1) * int k + x"
    by blast
  from word_letters_font [OF k] obtain ch where "FONT_5x7 ch = Some (word_letters word ! k)" ..
  from font_bottom_row [OF this x] bit have x04: "x = 0 \<or> x = 4"
    by simp
  define n where "n = int (length (word_letters word))"
  have kn: "int k < n" "0 \<le> int k"
    using k by (simp_all add: n_def)
  have "word_letters word \<noteq> []"
    using k by auto
  then have w: "word_width word 1 = 6 * n - 1"
    by (simp add: word_width_def Let_def n_def)
  have c: "?c = max 0 ((53 - 6 * n) div 2)"
    by (simp add: start_column_def w)
  show False
    using pos x04 kn unfolding c by (auto simp: max_def split: if_splits; presburger)
qed

subsection \<open>The claims about the compositor\<close>

text \<open>
  C9: for every word, every spacing and every number of columns that is not negative,
  \<open>compose_word\<close> returns (no subscript fails) a grid of exactly 7 rows, each of exactly
  \<open>total_columns\<close> cells, every cell 0 or 1; and every assignment it executes targets
  a row from 0 to 6 and a column from 0 to \<open>total_columns - 1\<close>.
\<close>

theorem C9_grid_shape:
  assumes "0 \<le> total_columns"
  shows "\<exists>canvas writes.
           compose_word_writes word total_columns spacing = Inr (canvas, writes)
         \<and> compose_word word total_columns spacing = Inr canvas
         \<and> length canvas = 7
         \<and> (\<forall>line \<in> set canvas. int (length line) = total_columns
               \<and> (\<forall>cell \<in> set line. cell = 0 \<or> cell = 1))
         \<and> (\<forall>(r, j) \<in> set writes. 0 \<le> r \<and> r < 7 \<and> 0 \<le> j \<and> j < total_columns)"
proof -
  let ?ws = "letters_writes (word_letters word) total_columns spacing
               (start_column total_columns (word_width word spacing))"
  let ?cv = "paint (blank_canvas 7 total_columns) ?ws"
  have ws: "\<forall>t \<in> set ?ws. in_grid total_columns t"
    by (rule letters_writes_in_grid)
  have "grid_ok total_columns ?cv"
    by (rule grid_ok_paint [OF grid_ok_blank ws])
  then have shape: "length ?cv = 7 \<and> (\<forall>line \<in> set ?cv. int (length line) = total_columns
               \<and> (\<forall>cell \<in> set line. cell = 0 \<or> cell = 1))"
    using assms by (simp add: grid_ok_def)
  have tg: "\<forall>(r, j) \<in> set ?ws. 0 \<le> r \<and> r < 7 \<and> 0 \<le> j \<and> j < total_columns"
    using ws by (auto simp: in_grid_def)
  show ?thesis
    using compose_word_writes_value [of word total_columns spacing]
      compose_word_value [of word total_columns spacing] shape tg
    by blast
qed

theorem C9_grid_shape_witness:
  "\<exists>canvas writes.
           compose_word_writes ''NERDLIN NERDLIN'' 20 (- 3) = Inr (canvas, writes)
         \<and> compose_word ''NERDLIN NERDLIN'' 20 (- 3) = Inr canvas
         \<and> length canvas = 7
         \<and> list_all (\<lambda>line. length line = 20 \<and> list_all (\<lambda>cell. cell = 0 \<or> cell = 1) line) canvas
         \<and> list_all (\<lambda>(r, j). 0 \<le> r \<and> r < 7 \<and> 0 \<le> j \<and> j < 20) writes
         \<and> writes \<noteq> []"
proof -
  have ne: "map_sum id (\<lambda>st. snd st \<noteq> []) (compose_word_writes ''NERDLIN NERDLIN'' 20 (- 3)) = Inr True"
    by code_simp
  from C9_grid_shape [of 20 "''NERDLIN NERDLIN''" "- 3"] obtain canvas writes
    where w: "compose_word_writes ''NERDLIN NERDLIN'' 20 (- 3) = Inr (canvas, writes)"
      and c: "compose_word ''NERDLIN NERDLIN'' 20 (- 3) = Inr canvas"
      and l: "length canvas = 7"
      and s: "\<forall>line \<in> set canvas. int (length line) = 20 \<and> (\<forall>cell \<in> set line. cell = 0 \<or> cell = 1)"
      and t: "\<forall>(r, j) \<in> set writes. 0 \<le> r \<and> r < 7 \<and> 0 \<le> j \<and> j < 20"
    by auto
  have "writes \<noteq> []"
    using ne w by simp
  moreover have "list_all (\<lambda>line. length line = 20 \<and> list_all (\<lambda>cell. cell = 0 \<or> cell = 1) line) canvas"
    using s by (simp add: list_all_iff)
  moreover have "list_all (\<lambda>(r, j). 0 \<le> r \<and> r < 7 \<and> 0 \<le> j \<and> j < 20) writes"
    using t by (simp add: list_all_iff)
  ultimately show ?thesis
    using w c l by blast
qed

text \<open>
  C6: for the empty word, and for every word none of whose characters is in the glyph
  table after uppercasing, \<open>compose_word\<close> returns, without an exception, the grid of 7
  rows and 52 columns with no lit cell.
\<close>

theorem C6_no_supported_characters:
  assumes "\<forall>ch \<in> set (upper word). FONT_5x7 ch = None"
  shows "compose_word word 52 1 = Inr (replicate 7 (replicate 52 0))
     \<and> lit_count (replicate 7 (replicate 52 0)) = 0"
proof -
  have "filter (\<lambda>ch. FONT_5x7 ch \<noteq> None) (upper word) = []"
    using assms by (simp add: filter_empty_conv)
  then have "word_letters word = []"
    by (simp add: word_letters_def)
  then have "compose_word word 52 1 = Inr (blank_canvas 7 52)"
    by (simp add: compose_word_value)
  moreover have "lit_count (replicate 7 (replicate 52 0)) = 0"
    by (simp add: lit_count_def)
  ultimately show ?thesis
    by (simp add: blank_canvas_replicate)
qed

theorem C6_no_supported_characters_witness:
  "compose_word [] 52 1 = Inr (replicate 7 (replicate 52 0))
     \<and> compose_word ''42 xyz!'' 52 1 = Inr (replicate 7 (replicate 52 0))"
proof -
  have a: "\<forall>ch \<in> set (upper []). FONT_5x7 ch = None"
    by (simp add: upper_def)
  have b: "\<forall>ch \<in> set (upper ''42 xyz!''). FONT_5x7 ch = None"
    by code_simp
  show ?thesis
    using C6_no_supported_characters [OF a] C6_no_supported_characters [OF b] by simp
qed

lemma single_letters:
  "list_all (\<lambda>(up, lo). case FONT_5x7 up of None \<Rightarrow> False
       | Some g \<Rightarrow> compose_word [up] 52 1 = Inr (glyph_at g 23 52)
                 \<and> compose_word [lo] 52 1 = Inr (glyph_at g 23 52))
     (zip ''NERDLI'' ''nerdli'')"
  by code_simp

text \<open>
  C4: for each of the letters N, E, R, D, L, I, the word made of that letter alone, in
  upper or in lower case, composed on 52 columns with spacing 1, is the glyph of the
  letter placed at column \<open>max(0, (52 - 5) div 2) = 23\<close>, every other cell unlit.
\<close>

theorem C4_single_letter:
  assumes "(up, lo) \<in> set (zip ''NERDLI'' ''nerdli'')"
  shows "\<exists>g. FONT_5x7 up = Some g \<and> start_column 52 5 = 23
           \<and> compose_word [up] 52 1 = Inr (glyph_at g 23 52)
           \<and> compose_word [lo] 52 1 = Inr (glyph_at g 23 52)"
proof -
  have "case FONT_5x7 up of None \<Rightarrow> False
       | Some g \<Rightarrow> compose_word [up] 52 1 = Inr (glyph_at g 23 52)
                 \<and> compose_word [lo] 52 1 = Inr (glyph_at g 23 52)"
    using single_letters assms unfolding list_all_iff by blast
  moreover have "start_column 52 5 = 23"
    by (simp add: start_column_def)
  ultimately show ?thesis
    by (cases "FONT_5x7 up") simp_all
qed

theorem C4_single_letter_witness:
  "\<exists>g. FONT_5x7 CHR ''R'' = Some g \<and> start_column 52 5 = 23
           \<and> compose_word ''R'' 52 1 = Inr (glyph_at g 23 52)
           \<and> compose_word ''r'' 52 1 = Inr (glyph_at g 23 52)"
proof -
  have "(CHR ''R'', CHR ''r'') \<in> set (zip ''NERDLI'' ''nerdli'')"
    by simp
  from C4_single_letter [OF this] show ?thesis .
qed

section \<open>The word I\<close>

lemma compose_I: "compose_word ''I'' 52 1 = Inr canvas_I"
  by code_simp

text \<open>
  C5 as stated: in the canvas of the word \<open>I\<close> the first, third and last rows of the
  glyph are fully lit. In the table the glyph has its bars in rows 0 and 4: the cell of
  row 2 and column 23 is unlit, and so is row 6. And on the Saturday 0001-01-06 no date
  is emitted, since no anchor exists.
\<close>

theorem C5_counterexample_rows:
  "compose_word ''I'' 52 1 = Inr canvas_I
     \<and> lit canvas_I 0 23 \<and> \<not> lit canvas_I 2 23 \<and> lit canvas_I 4 23 \<and> \<not> lit canvas_I 6 23
     \<and> valid_date 6 \<and> weekday 6 = 5
     \<and> plan_dates (quiet_world 6) canvas_I = Inl OverflowError"
  by code_simp

text \<open>
  C5, amended: for the word \<open>I\<close> on 52 columns and today a Saturday from 0001-12-30 on,
  the lit cells lie in the five columns from 23 on; rows 0 and 4 are lit in all five
  columns, rows 1, 2 and 3 in column 25 only, rows 5 and 6 nowhere; and the emitted
  dates are those of the 13 lit cells, from the anchor plus 23 weeks and 0 days through
  the anchor plus 27 weeks and 4 days, the anchor being 51 weeks before the Sunday six
  days before today.
\<close>

theorem C5_word_I:
  assumes "valid_date (clock w)" and "364 \<le> clock w" and "weekday (clock w) = 5"
  shows "\<exists>anchor. leftmost_sunday (clock w) = Inr anchor
           \<and> anchor = clock w - 6 - weeks 51
           \<and> start_column 52 5 = 23
           \<and> compose_word ''I'' 52 1 = Inr canvas_I
           \<and> lit_cells canvas_I =
               [(23, 0), (23, 4), (24, 0), (24, 4), (25, 0), (25, 1), (25, 2), (25, 3), (25, 4),
                (26, 0), (26, 4), (27, 0), (27, 4)]
           \<and> plan_dates w canvas_I =
               Inr [anchor + weeks 23 + 0, anchor + weeks 23 + 4,
                    anchor + weeks 24 + 0, anchor + weeks 24 + 4,
                    anchor + weeks 25 + 0, anchor + weeks 25 + 1, anchor + weeks 25 + 2,
                    anchor + weeks 25 + 3, anchor + weeks 25 + 4,
                    anchor + weeks 26 + 0, anchor + weeks 26 + 4,
                    anchor + weeks 27 + 0, anchor + weeks 27 + 4]"
proof -
  let ?anchor = "clock w - clock w mod 7 - 357"
  have hi: "clock w \<le> MAXORD"
    using assms(1) by (simp add: valid_date_def)
  have a: "leftmost_sunday (clock w) = Inr ?anchor"
    by (rule leftmost_sunday_value [OF assms(2) hi])
  have "clock w mod 7 = 6"
    using assms(3) unfolding weekday_def by presburger
  then have v: "?anchor = clock w - 6 - weeks 51"
    by (simp add: weeks_def)
  have top: "?anchor + 363 \<le> MAXORD \<or> \<not> lit canvas_I 6 51"
    using corner_unlit_I by simp
  have "plan_dates w canvas_I = Inr (map (date_of_cell ?anchor) (lit_cells canvas_I))"
    by (rule plan_dates_value [OF is_canvas_I' a top])
  then have p: "plan_dates w canvas_I =
               Inr [?anchor + weeks 23 + 0, ?anchor + weeks 23 + 4,
                    ?anchor + weeks 24 + 0, ?anchor + weeks 24 + 4,
                    ?anchor + weeks 25 + 0, ?anchor + weeks 25 + 1, ?anchor + weeks 25 + 2,
                    ?anchor + weeks 25 + 3, ?anchor + weeks 25 + 4,
                    ?anchor + weeks 26 + 0, ?anchor + weeks 26 + 4,
                    ?anchor + weeks 27 + 0, ?anchor + weeks 27 + 4]"
    unfolding lit_cells_I by (simp add: date_of_cell_def weeks_def)
  have sc: "start_column 52 5 = 23"
    by (simp add: start_column_def)
  show ?thesis
    using a v sc compose_I lit_cells_I p by blast
qed

theorem C5_word_I_witness:
  "\<exists>anchor. leftmost_sunday (clock (quiet_world 739927)) = Inr anchor
           \<and> anchor = 739927 - 6 - weeks 51
           \<and> compose_word ''I'' 52 1 = Inr canvas_I
           \<and> plan_dates (quiet_world 739927) canvas_I =
               Inr [anchor + weeks 23 + 0, anchor + weeks 23 + 4,
                    anchor + weeks 24 + 0, anchor + weeks 24 + 4,
                    anchor + weeks 25 + 0, anchor + weeks 25 + 1, anchor + weeks 25 + 2,
                    anchor + weeks 25 + 3, anchor + weeks 25 + 4,
                    anchor + weeks 26 + 0, anchor + weeks 26 + 4,
                    anchor + weeks 27 + 0, anchor + weeks 27 + 4]"
proof -
  have "valid_date (clock (quiet_world 739927))" "364 \<le> clock (quiet_world 739927)"
    "weekday (clock (quiet_world 739927)) = 5"
    by (simp_all add: quiet_world_def valid_date_def MINORD_def MAXORD_def weekday_def)
  from C5_word_I [OF this] show ?thesis
    by (auto simp: quiet_world_def)
qed

section \<open>Properties of a run\<close>

lemma py_or_missing:
  assumes "email_missing w a"
  shows "py_or (arg_email a) (py_or (environ_email w) []) = []"
  using assms by (auto simp: email_missing_def)

lemma plan_of_word:
  assumes "valid_date (clock w)" and "364 \<le> clock w"
  shows "\<exists>canvas dates. compose_word word 52 1 = Inr canvas \<and> plan_dates w canvas = Inr dates
           \<and> length dates = lit_count canvas"
proof -
  let ?cv = "paint (blank_canvas 7 52)
       (letters_writes (word_letters word) 52 1 (start_column 52 (word_width word 1)))"
  let ?anchor = "clock w - clock w mod 7 - 357"
  have c: "compose_word word 52 1 = Inr ?cv"
    by (rule compose_word_value)
  have "grid_ok 52 ?cv"
    by (rule grid_ok_paint [OF grid_ok_blank letters_writes_in_grid])
  then have cv: "is_canvas ?cv"
    by (rule grid_ok_is_canvas)
  have hi: "clock w \<le> MAXORD"
    using assms(1) by (simp add: valid_date_def)
  have a: "leftmost_sunday (clock w) = Inr ?anchor"
    by (rule leftmost_sunday_value [OF assms(2) hi])
  have top: "?anchor + 363 \<le> MAXORD \<or> \<not> lit ?cv 6 51"
    using corner_unlit [OF c] by simp
  have p: "plan_dates w ?cv = Inr (map (date_of_cell ?anchor) (lit_cells ?cv))"
    by (rule plan_dates_value [OF cv a top])
  have "length (map (date_of_cell ?anchor) (lit_cells ?cv)) = lit_count ?cv"
    using length_lit_cells [OF cv] by simp
  with c p show ?thesis
    by blast
qed

lemma main_dry_run:
  assumes "\<not> arg_apply a"
    and "compose_word (arg_word a) 52 1 = Inr canvas" and "plan_dates w canvas = Inr dates"
  shows "main w a = (Returned, [Print (length dates) (int (length dates) * arg_intensity a)])"
  using assms by (simp add: main_def Let_def)

lemma main_no_email:
  assumes "arg_apply a" and "email_missing w a"
  shows "main w a =
     (case bind (compose_word (arg_word a) 52 1) (\<lambda>canvas. plan_dates w canvas) of
        Inl e \<Rightarrow> (Uncaught e, [])
      | Inr dates \<Rightarrow> (SystemExit ''--email is required (or set GIT_AUTHOR_EMAIL)'',
                      [Print (length dates) (int (length dates) * arg_intensity a)]))"
  using assms(1) py_or_missing [OF assms(2)]
  by (simp add: main_def Let_def split: sum.splits)

text \<open>
  C8, for a run of \<open>main\<close> on a command line that \<open>argparse\<close> accepted. With \<open>--apply\<close>
  and no author email, the run ends with a non-zero exit status and its trace holds no
  event but the report: no line is appended and no command is started, so no commit is
  created; and when the clock shows a date for which the planner has an anchor, as every
  date from 0001-12-30 on is, the run ends with \<open>SystemExit\<close> and the message of the
  script, after the report of the plan. Without \<open>--apply\<close>, on such a date, the run does
  nothing but print the report of the plan of \<open>args.word\<close>, the number of planned dates,
  which is the number of lit cells of the composed canvas, and that number times the
  intensity; then it returns, and the exit status is 0.
\<close>

theorem C8_missing_email_and_dry_run:
  "(arg_apply a \<and> email_missing w a \<longrightarrow>
      exit_code (fst (main w a)) \<noteq> 0 \<and> list_all is_report (snd (main w a)))
   \<and> (arg_apply a \<and> email_missing w a \<and> valid_date (clock w) \<and> 364 \<le> clock w \<longrightarrow>
      (\<exists>canvas dates. compose_word (arg_word a) 52 1 = Inr canvas
         \<and> plan_dates w canvas = Inr dates
         \<and> main w a = (SystemExit ''--email is required (or set GIT_AUTHOR_EMAIL)'',
                       [Print (length dates) (int (length dates) * arg_intensity a)])))
   \<and> (\<not> arg_apply a \<and> valid_date (clock w) \<and> 364 \<le> clock w \<longrightarrow>
      (\<exists>canvas dates. compose_word (arg_word a) 52 1 = Inr canvas
         \<and> plan_dates w canvas = Inr dates \<and> length dates = lit_count canvas
         \<and> main w a = (Returned, [Print (length dates) (int (length dates) * arg_intensity a)]))
      \<and> exit_code (fst (main w a)) = 0)"
proof (intro conjI impI)
  assume h: "arg_apply a \<and> email_missing w a"
  then have m: "main w a =
     (case bind (compose_word (arg_word a) 52 1) (\<lambda>canvas. plan_dates w canvas) of
        Inl e \<Rightarrow> (Uncaught e, [])
      | Inr dates \<Rightarrow> (SystemExit ''--email is required (or set GIT_AUTHOR_EMAIL)'',
                      [Print (length dates) (int (length dates) * arg_intensity a)]))"
    by (simp add: main_no_email)
  show "exit_code (fst (main w a)) \<noteq> 0"
    unfolding m by (simp split: sum.splits)
  show "list_all is_report (snd (main w a))"
    unfolding m by (simp split: sum.splits)
next
  assume h: "arg_apply a \<and> email_missing w a \<and> valid_date (clock w) \<and> 364 \<le> clock w"
  then obtain canvas dates
    where c: "compose_word (arg_word a) 52 1 = Inr canvas" and p: "plan_dates w canvas = Inr dates"
    using plan_of_word by blast
  then have "main w a = (SystemExit ''--email is required (or set GIT_AUTHOR_EMAIL)'',
                       [Print (length dates) (int (length dates) * arg_intensity a)])"
    using h by (simp add: main_no_email)
  with c p show "\<exists>canvas dates. compose_word (arg_word a) 52 1 = Inr canvas
         \<and> plan_dates w canvas = Inr dates
         \<and> main w a = (SystemExit ''--email is required (or set GIT_AUTHOR_EMAIL)'',
                       [Print (length dates) (int (length dates) * arg_intensity a)])"
    by blast
next
  assume h: "\<not> arg_apply a \<and> valid_date (clock w) \<and> 364 \<le> clock w"
  then obtain canvas dates
    where c: "compose_word (arg_word a) 52 1 = Inr canvas" and p: "plan_dates w canvas = Inr dates"
      and n: "length dates = lit_count canvas"
    using plan_of_word by blast
  have m: "main w a = (Returned, [Print (length dates) (int (length dates) * arg_intensity a)])"
    using h by (intro main_dry_run [OF _ c p]) simp
  with c p n show "\<exists>canvas dates. compose_word (arg_word a) 52 1 = Inr canvas
         \<and> plan_dates w canvas = Inr dates \<and> length dates = lit_count canvas
         \<and> main w a = (Returned, [Print (length dates) (int (length dates) * arg_intensity a)])"
    by blast
  show "exit_code (fst (main w a)) = 0"
    using m by simp
qed

lemma main_default_2026:
  "main (quiet_world 739927) default_args = (Returned, [Print 102 612])"
  by code_simp

theorem C8_missing_email_and_dry_run_witness:
  "exit_code (fst (main (quiet_world 739927) (default_args\<lparr>arg_apply := True\<rparr>))) \<noteq> 0
   \<and> list_all is_report (snd (main (quiet_world 739927) (default_args\<lparr>arg_apply := True\<rparr>)))
   \<and> (\<exists>canvas dates. compose_word ''NERDLIN'' 52 1 = Inr canvas
         \<and> plan_dates (quiet_world 739927) canvas = Inr dates
         \<and> fst (main (quiet_world 739927) (default_args\<lparr>arg_apply := True\<rparr>))
              = SystemExit ''--email is required (or set GIT_AUTHOR_EMAIL)'')
   \<and> (\<exists>canvas dates. compose_word ''NERDLIN'' 52 1 = Inr canvas
         \<and> plan_dates (quiet_world 739927) canvas = Inr dates \<and> length dates = lit_count canvas
         \<and> length dates = 102
         \<and> main (quiet_world 739927) default_args = (Returned, [Print (length dates) (int (length dates) * 6)]))
   \<and> exit_code (fst (main (quiet_world 739927) default_args)) = 0"
proof -
  have e: "email_missing (quiet_world 739927) (default_args\<lparr>arg_apply := True\<rparr>)"
    by (simp add: email_missing_def quiet_world_def default_args_def)
  have d: "valid_date (clock (quiet_world 739927))" "364 \<le> clock (quiet_world 739927)"
    by (simp_all add: quiet_world_def valid_date_def MINORD_def MAXORD_def)
  have y: "arg_apply (default_args\<lparr>arg_apply := True\<rparr>)" and n: "\<not> arg_apply default_args"
    and i: "arg_intensity default_args = 6" and wd: "arg_word default_args = ''NERDLIN''"
      "arg_word (default_args\<lparr>arg_apply := True\<rparr>) = ''NERDLIN''"
    by (simp_all add: default_args_def)
  note on = C8_missing_email_and_dry_run [of "default_args\<lparr>arg_apply := True\<rparr>" "quiet_world 739927"]
  note off = C8_missing_email_and_dry_run [of default_args "quiet_world 739927"]
  have 1: "exit_code (fst (main (quiet_world 739927) (default_args\<lparr>arg_apply := True\<rparr>))) \<noteq> 0
   \<and> list_all is_report (snd (main (quiet_world 739927) (default_args\<lparr>arg_apply := True\<rparr>)))"
    using on e y by blast
  have 2: "\<exists>canvas dates. compose_word ''NERDLIN'' 52 1 = Inr canvas
         \<and> plan_dates (quiet_world 739927) canvas = Inr dates
         \<and> fst (main (quiet_world 739927) (default_args\<lparr>arg_apply := True\<rparr>))
              = SystemExit ''--email is required (or set GIT_AUTHOR_EMAIL)''"
    using on e y d unfolding wd by fastforce
  have "\<exists>canvas dates. compose_word ''NERDLIN'' 52 1 = Inr canvas
         \<and> plan_dates (quiet_world 739927) canvas = Inr dates \<and> length dates = lit_count canvas
         \<and> main (quiet_world 739927) default_args = (Returned, [Print (length dates) (int (length dates) * 6)])"
    using off n d unfolding wd i by blast
  then have 3: "\<exists>canvas dates. compose_word ''NERDLIN'' 52 1 = Inr canvas
         \<and> plan_dates (quiet_world 739927) canvas = Inr dates \<and> length dates = lit_count canvas
         \<and> length dates = 102
         \<and> main (quiet_world 739927) default_args = (Returned, [Print (length dates) (int (length dates) * 6)])"
    unfolding main_default_2026 by auto
  have 4: "exit_code (fst (main (quiet_world 739927) default_args)) = 0"
    using off n d by blast
  show ?thesis
    using 1 2 3 4 by blast
qed

end
